theory Spec2Isabelle
  imports Main "HOL-Library.Sublist"
begin

section \<open>Python strings\<close>

text \<open>
  A Python \<open>str\<close> is a sequence of code points. It is modelled as a \<open>string\<close>, one
  \<open>char\<close> per code point, which covers the code points 0 to 255. The character
  classes below are the ones CPython uses on that range.
\<close>

abbreviation LF :: char where "LF \<equiv> CHR 0x0A"
abbreviation CR :: char where "CR \<equiv> CHR 0x0D"
abbreviation TAB :: char where "TAB \<equiv> CHR 0x09"
abbreviation DQ :: char where "DQ \<equiv> CHR 0x22"

definition is_space :: "char \<Rightarrow> bool" where
  \<comment> \<open>\<open>str.isspace\<close> on one character: what \<open>str.strip()\<close> removes.\<close>
  "is_space c = (of_char c \<in> set [0x09, 0x0A, 0x0B, 0x0C, 0x0D, 0x1C, 0x1D, 0x1E, 0x1F,
                                  0x20, 0x85, 0xA0 :: nat])"

definition is_linebreak :: "char \<Rightarrow> bool" where
  \<comment> \<open>the line boundaries of \<open>str.splitlines\<close>\<close>
  "is_linebreak c = (of_char c \<in> set [0x0A, 0x0B, 0x0C, 0x0D, 0x1C, 0x1D, 0x1E, 0x85 :: nat])"

definition is_word :: "char \<Rightarrow> bool" where
  \<comment> \<open>\<open>\w\<close> of the \<open>re\<close> module on a \<open>str\<close> pattern: alphanumeric or underscore\<close>
  "is_word c = (let n = (of_char c :: nat) in
      (0x30 \<le> n \<and> n \<le> 0x39) \<or> (0x41 \<le> n \<and> n \<le> 0x5A) \<or> n = 0x5F \<or>
      (0x61 \<le> n \<and> n \<le> 0x7A) \<or>
      n \<in> set [0xAA, 0xB2, 0xB3, 0xB5, 0xB9, 0xBA, 0xBC, 0xBD, 0xBE] \<or>
      (0xC0 \<le> n \<and> n \<le> 0xD6) \<or> (0xD8 \<le> n \<and> n \<le> 0xF6) \<or> (0xF8 \<le> n \<and> n \<le> 0xFF))"

definition strip :: "string \<Rightarrow> string" where
  \<comment> \<open>\<open>str.strip()\<close>\<close>
  "strip s = rev (dropWhile is_space (rev (dropWhile is_space s)))"

fun splitlines_from :: "string \<Rightarrow> string \<Rightarrow> string list" where
  \<comment> \<open>first argument: the line read so far\<close>
  "splitlines_from cur [] = (if cur = [] then [] else [cur])"
| "splitlines_from cur [c] = (if is_linebreak c then [cur] else [cur @ [c]])"
| "splitlines_from cur (c # d # cs) =
     (if c = CR \<and> d = LF then cur # splitlines_from [] cs
      else if is_linebreak c then cur # splitlines_from [] (d # cs)
      else splitlines_from (cur @ [c]) (d # cs))"

definition splitlines :: "string \<Rightarrow> string list" where
  \<comment> \<open>\<open>str.splitlines()\<close>: no line ends are kept, \<open>\r\n\<close> is one boundary, and a
      final line end opens no further line\<close>
  "splitlines s = splitlines_from [] s"

fun find_py :: "'a list \<Rightarrow> 'a list \<Rightarrow> nat option" where
  \<comment> \<open>\<open>s.find(sep)\<close>: the lowest index where \<open>sep\<close> occurs\<close>
  "find_py sep [] = (if sep = [] then Some 0 else None)"
| "find_py sep (x # xs) =
     (if prefix sep (x # xs) then Some 0 else map_option Suc (find_py sep xs))"

fun rfind :: "'a list \<Rightarrow> 'a list \<Rightarrow> nat option" where
  \<comment> \<open>\<open>s.rfind(sep)\<close>: the highest index where \<open>sep\<close> occurs\<close>
  "rfind sep [] = (if sep = [] then Some 0 else None)"
| "rfind sep (x # xs) =
     (case rfind sep xs of
        Some i \<Rightarrow> Some (Suc i)
      | None \<Rightarrow> if prefix sep (x # xs) then Some 0 else None)"

definition partition_py :: "'a list \<Rightarrow> 'a list \<Rightarrow> 'a list \<times> 'a list \<times> 'a list" where
  \<comment> \<open>\<open>s.partition(sep)\<close> for a non-empty \<open>sep\<close>\<close>
  "partition_py sep s =
     (case find_py sep s of
        None \<Rightarrow> (s, [], [])
      | Some i \<Rightarrow> (take i s, sep, drop (i + length sep) s))"

definition rpartition :: "'a list \<Rightarrow> 'a list \<Rightarrow> 'a list \<times> 'a list \<times> 'a list" where
  \<comment> \<open>\<open>s.rpartition(sep)\<close> for a non-empty \<open>sep\<close>\<close>
  "rpartition sep s =
     (case rfind sep s of
        None \<Rightarrow> ([], [], s)
      | Some i \<Rightarrow> (take i s, sep, drop (i + length sep) s))"

definition replace_char :: "char \<Rightarrow> char \<Rightarrow> string \<Rightarrow> string" where
  \<comment> \<open>\<open>s.replace(a, b)\<close> for one-character \<open>a\<close> and \<open>b\<close>\<close>
  "replace_char a b s = map (\<lambda>c. if c = a then b else c) s"

section \<open>The regular expression of the discovery\<close>

text \<open>
  \<open>re.search(r'(\b|_)perf(\b|_)', name)\<close>. The pattern is kept as a syntax tree and
  matched by a backtracking matcher that returns every end position of a match
  starting at a given position; \<open>re.search\<close> succeeds when some start position has one.
\<close>

datatype regex = Lit char | WordB | Seq regex regex | Alt regex regex

definition word_at :: "string \<Rightarrow> nat \<Rightarrow> bool" where
  "word_at s i = (i < length s \<and> is_word (s ! i))"

definition word_boundary :: "string \<Rightarrow> nat \<Rightarrow> bool" where
  \<comment> \<open>\<open>\b\<close> at position \<open>i\<close>: exactly one of the characters before and after is a word
      character; the outside of the string counts as not a word character\<close>
  "word_boundary s i = ((0 < i \<and> word_at s (i - 1)) \<noteq> word_at s i)"

fun rmatch :: "regex \<Rightarrow> string \<Rightarrow> nat \<Rightarrow> nat list" where
  "rmatch (Lit c) s i = (if i < length s \<and> s ! i = c then [Suc i] else [])"
| "rmatch WordB s i = (if word_boundary s i then [i] else [])"
| "rmatch (Seq a b) s i = concat (map (rmatch b s) (rmatch a s i))"
| "rmatch (Alt a b) s i = rmatch a s i @ rmatch b s i"

definition re_search :: "regex \<Rightarrow> string \<Rightarrow> bool" where
  "re_search r s = list_ex (\<lambda>i. rmatch r s i \<noteq> []) [0..<Suc (length s)]"

definition perf_re :: regex where
  \<comment> \<open>\<open>(\b|_)perf(\b|_)\<close>\<close>
  "perf_re =
     Seq (Alt WordB (Lit (CHR ''_'')))
       (Seq (Lit (CHR ''p'')) (Seq (Lit (CHR ''e'')) (Seq (Lit (CHR ''r'')) (Seq (Lit (CHR ''f''))
          (Alt WordB (Lit (CHR ''_'')))))))"

definition eligible :: "string \<Rightarrow> bool" where
  \<comment> \<open>the filter of \<open>funcs_from_name\<close>\<close>
  "eligible name = re_search perf_re name"

section \<open>Exceptions\<close>

text \<open>
  A raised exception is a value. \<open>Exc c\<close> is an instance of a class \<open>c\<close> that derives
  from \<open>Exception\<close>; \<open>BaseExc c\<close> is one that derives from \<open>BaseException\<close> only
  (\<open>SystemExit\<close>, \<open>KeyboardInterrupt\<close>, \<open>GeneratorExit\<close>). A computation that may
  raise returns \<open>py_exc + 'a\<close>.
\<close>

datatype py_exc = Exc string | BaseExc string

fun is_Exception :: "py_exc \<Rightarrow> bool" where
  "is_Exception (Exc c) = True"
| "is_Exception (BaseExc c) = False"

definition suppress_Exception :: "py_exc + 'a \<Rightarrow> py_exc + 'a option" where
  \<comment> \<open>the decorator \<open>@suppress(Exception)\<close>: the call returns \<open>None\<close> when the body
      raises an instance of \<open>Exception\<close>, and anything else passes through\<close>
  "suppress_Exception r =
     (case r of
        Inr v \<Rightarrow> Inr (Some v)
      | Inl e \<Rightarrow> if is_Exception e then Inr None else Inl e)"

section \<open>Module loader and function discoverer\<close>

record 'v pymodule =
  mod_dir :: "string list"        \<comment> \<open>\<open>dir(mod)\<close>\<close>
  mod_attr :: "string \<Rightarrow> 'v"     \<comment> \<open>\<open>getattr(mod, name)\<close> for a name of \<open>dir(mod)\<close>\<close>

text \<open>
  The import machinery is the environment of the loader: each of the three calls of
  \<open>load_module\<close> returns or raises. \<open>find_spec\<close> returns \<open>None\<close> for a module it does
  not find, and \<open>exec_module\<close> fills the module it is given.
\<close>

record ('sp, 'v) importlib =
  find_spec :: "string \<Rightarrow> py_exc + 'sp option"
  module_from_spec :: "'sp \<Rightarrow> py_exc + 'v pymodule"
  exec_module :: "'sp \<Rightarrow> 'v pymodule \<Rightarrow> py_exc + 'v pymodule"

definition load_module_body :: "('sp, 'v) importlib \<Rightarrow> string \<Rightarrow> py_exc + 'v pymodule" where
  "load_module_body env name =
     (case find_spec env name of
        Inl e \<Rightarrow> Inl e
      | Inr None \<Rightarrow> Inl (Exc ''AttributeError'')
      | Inr (Some spec) \<Rightarrow>
          (case module_from_spec env spec of
             Inl e \<Rightarrow> Inl e
           | Inr m \<Rightarrow> exec_module env spec m))"

definition load_module :: "('sp, 'v) importlib \<Rightarrow> string \<Rightarrow> py_exc + 'v pymodule option" where
  "load_module env name = suppress_Exception (load_module_body env name)"

definition dir_None :: "string list" where
  \<comment> \<open>\<open>dir(None)\<close>\<close>
  "dir_None =
     [''__bool__'', ''__class__'', ''__delattr__'', ''__dir__'', ''__doc__'', ''__eq__'',
      ''__format__'', ''__ge__'', ''__getattribute__'', ''__getstate__'', ''__gt__'',
      ''__hash__'', ''__init__'', ''__init_subclass__'', ''__le__'', ''__lt__'', ''__ne__'',
      ''__new__'', ''__reduce__'', ''__reduce_ex__'', ''__repr__'', ''__setattr__'',
      ''__sizeof__'', ''__str__'', ''__subclasshook__'']"

datatype 'v attr = ModAttr 'v | NoneAttr string

fun dir_py :: "'v pymodule option \<Rightarrow> string list" where
  "dir_py None = dir_None"
| "dir_py (Some m) = mod_dir m"

fun getattr_py :: "'v pymodule option \<Rightarrow> string \<Rightarrow> 'v attr" where
  "getattr_py None name = NoneAttr name"
| "getattr_py (Some m) name = ModAttr (mod_attr m name)"

definition funcs_from_name :: "('sp, 'v) importlib \<Rightarrow> string \<Rightarrow> py_exc + 'v attr list" where
  "funcs_from_name env name =
     (let mod_path = fst (rpartition ''.'' name);
          mod_name = replace_char (CHR ''/'') (CHR ''.'') mod_path
      in (case load_module env mod_name of
            Inl e \<Rightarrow> Inl e
          | Inr module \<Rightarrow> Inr (map (getattr_py module) (filter eligible (dir_py module)))))"

section \<open>Specification builder\<close>

datatype pyval = PNone | PInt int | PStr string | PList "pyval list" | PTuple "pyval list"

fun iter_py :: "pyval \<Rightarrow> pyval list option" where
  \<comment> \<open>the elements of an iterable, in iteration order; \<open>None\<close> for a value that is not
      iterable\<close>
  "iter_py (PList xs) = Some xs"
| "iter_py (PTuple xs) = Some xs"
| "iter_py (PStr s) = Some (map (\<lambda>c. PStr [c]) s)"
| "iter_py PNone = None"
| "iter_py (PInt n) = None"

definition tuple_py :: "pyval \<Rightarrow> py_exc + pyval" where
  \<comment> \<open>\<open>tuple(x)\<close>\<close>
  "tuple_py x = (case iter_py x of None \<Rightarrow> Inl (Exc ''TypeError'') | Some xs \<Rightarrow> Inr (PTuple xs))"

definition freeze :: "pyval \<Rightarrow> py_exc + pyval" where
  \<comment> \<open>\<open>pass_none(tuple)\<close>\<close>
  "freeze x = (if x = PNone then Inr PNone else tuple_py x)"

definition first_line :: "string option \<Rightarrow> string option" where
  \<comment> \<open>\<open>@pass_none\<close>: \<open>None\<close> goes to \<open>None\<close>; \<open>next(lines, None)\<close> otherwise\<close>
  "first_line text =
     (case text of
        None \<Rightarrow> None
      | Some t \<Rightarrow> (case map strip (splitlines t) of [] \<Rightarrow> None | l # ls \<Rightarrow> Some l))"

definition or_name :: "string option \<Rightarrow> string \<Rightarrow> string" where
  \<comment> \<open>\<open>x or y\<close> for \<open>x\<close> a \<open>str\<close> or \<open>None\<close>: \<open>x\<close> when it is a non-empty string\<close>
  "or_name x y = (case x of None \<Rightarrow> y | Some l \<Rightarrow> if l = [] then y else l)"

subsection \<open>\<open>textwrap.dedent\<close>\<close>

definition is_indent :: "char \<Rightarrow> bool" where
  "is_indent c = (c = CHR '' '' \<or> c = TAB)"

fun split_on :: "'a \<Rightarrow> 'a list \<Rightarrow> 'a list list" where
  \<comment> \<open>\<open>s.split(c)\<close> for a one-character \<open>c\<close>\<close>
  "split_on c [] = [[]]"
| "split_on c (x # xs) =
     (if x = c then [] # split_on c xs
      else (case split_on c xs of [] \<Rightarrow> [[x]] | l # ls \<Rightarrow> (x # l) # ls))"

fun join_with :: "'a \<Rightarrow> 'a list list \<Rightarrow> 'a list" where
  \<comment> \<open>\<open>c.join(ls)\<close>\<close>
  "join_with c [] = []"
| "join_with c [l] = l"
| "join_with c (l # l' # ls) = l @ c # join_with c (l' # ls)"

fun common_prefix :: "'a list \<Rightarrow> 'a list \<Rightarrow> 'a list" where
  "common_prefix (x # xs) (y # ys) = (if x = y then x # common_prefix xs ys else [])"
| "common_prefix xs ys = []"

fun margin_step :: "string option \<Rightarrow> string \<Rightarrow> string option" where
  \<comment> \<open>the body of the loop over the indents\<close>
  "margin_step None indent = Some indent"
| "margin_step (Some margin) indent =
     (if prefix margin indent then Some margin
      else if prefix indent margin then Some indent
      else Some (common_prefix margin indent))"

definition dedent :: "string \<Rightarrow> string" where
  \<comment> \<open>line by line, as the three multi-line regular expressions of \<open>dedent\<close> work:
      a line of blanks and tabs becomes empty, the margin is the longest common indent
      of the other non-empty lines, and it is removed where a line starts with it\<close>
  "dedent text =
     (let lines = map (\<lambda>l. if l \<noteq> [] \<and> list_all is_indent l then [] else l) (split_on LF text);
          indents = map (takeWhile is_indent) (filter (\<lambda>l. dropWhile is_indent l \<noteq> []) lines);
          margin = foldl margin_step None indents
      in join_with LF
           (case margin of
              None \<Rightarrow> lines
            | Some m \<Rightarrow>
                if m = [] then lines
                else map (\<lambda>l. if prefix m l then drop (length m) l else l) lines))"

subsection \<open>\<open>spec_from_func\<close>\<close>

text \<open>
  What \<open>spec_from_func\<close> reads of a function object. An attribute that the function
  does not have is \<open>None\<close> here (reading it raises \<open>AttributeError\<close>); an attribute
  set to Python's \<open>None\<close> is \<open>Some PNone\<close>. \<open>inspect.getsource\<close> returns the source
  text or raises.
\<close>

record pyfunc =
  func_doc :: "string option"        \<comment> \<open>\<open>__doc__\<close>: \<open>None\<close> or a string\<close>
  func_name :: string                \<comment> \<open>\<open>__name__\<close>\<close>
  func_extras :: "pyval option"
  func_deps :: "pyval option"
  func_control :: "pyval option"
  func_source :: "py_exc + string"   \<comment> \<open>\<open>inspect.getsource(_func)\<close>\<close>

definition marker :: string where
  "marker = ''# end warmup''"

definition body_of :: "string \<Rightarrow> string" where
  \<comment> \<open>\<open>_body\<close>: the dedented text after the first \<open>':\n'\<close> of the source\<close>
  "body_of src = dedent (snd (snd (partition_py [CHR '':'', LF] src)))"

definition yield_frozen :: "string \<Rightarrow> pyval option \<Rightarrow> py_exc + (string \<times> pyval) list" where
  \<comment> \<open>\<open>with contextlib.suppress(AttributeError): yield key, freeze(attribute)\<close>\<close>
  "yield_frozen key a =
     (case a of
        None \<Rightarrow> Inr []
      | Some v \<Rightarrow> (case freeze v of Inl e \<Rightarrow> Inl e | Inr t \<Rightarrow> Inr [(key, t)]))"

definition spec_items :: "pyfunc \<Rightarrow> py_exc + (string \<times> pyval) list" where
  \<comment> \<open>the pairs that the generator yields, in order\<close>
  "spec_items f =
     (let name = [(''name'', PStr (or_name (first_line (func_doc f)) (func_name f)))] in
      case yield_frozen ''extras'' (func_extras f) of
        Inl e \<Rightarrow> Inl e
      | Inr extras \<Rightarrow>
     (case yield_frozen ''deps'' (func_deps f) of
        Inl e \<Rightarrow> Inl e
      | Inr deps \<Rightarrow>
     (let control = (case func_control f of None \<Rightarrow> [] | Some v \<Rightarrow> [(''control'', v)]) in
      case func_source f of
        Inl e \<Rightarrow> Inl e
      | Inr src \<Rightarrow>
     (case rpartition marker (body_of src) of (warmup, sep, exercise) \<Rightarrow>
        Inr (name @ extras @ deps @ control
             @ (if warmup \<noteq> [] then [(''warmup'', PStr warmup)] else [])
             @ [(''exercise'', PStr exercise)])))))"

definition dict_py :: "('k \<times> 'v) list \<Rightarrow> ('k \<rightharpoonup> 'v)" where
  \<comment> \<open>\<open>dict(pairs)\<close>: a later pair replaces an earlier one with the same key\<close>
  "dict_py items = map_of (rev items)"

definition spec_from_func :: "pyfunc \<Rightarrow> py_exc + (string \<rightharpoonup> pyval)" where
  \<comment> \<open>\<open>@apply(dict)\<close>\<close>
  "spec_from_func f = (case spec_items f of Inl e \<Rightarrow> Inl e | Inr items \<Rightarrow> Inr (dict_py items))"

section \<open>Runner cache\<close>

text \<open>
  \<open>runner_factory = functools.lru_cache()(runner.BenchmarkRunner)\<close>. The cache of
  \<open>lru_cache()\<close> holds at most \<open>maxsize = 128\<close> entries, keyed by the keyword arguments
  of the call in the order they are passed; a hit makes its entry the most recent one,
  and a miss on a full cache drops the least recent entry. The entries are kept most
  recent first. A Runner object is known by its identity: the number of Runner objects
  constructed before it. The constructor of \<open>BenchmarkRunner\<close> is a parameter of each
  call: it says, for the arguments, whether the construction raises.
\<close>

type_synonym kwargs = "(string \<times> pyval) list"

fun hashable :: "pyval \<Rightarrow> bool" where
  "hashable (PList xs) = False"
| "hashable (PTuple xs) = list_all hashable xs"
| "hashable v = True"

definition maxsize :: nat where
  "maxsize = 128"

record factory_state =
  cache :: "(kwargs \<times> nat) list"   \<comment> \<open>key and Runner, most recently used first\<close>
  created :: nat                     \<comment> \<open>the number of Runner objects constructed so far\<close>

definition factory_init :: factory_state where
  "factory_init = \<lparr>cache = [], created = 0\<rparr>"

definition runner_factory ::
  "(kwargs \<Rightarrow> py_exc option) \<Rightarrow> kwargs \<Rightarrow> factory_state \<Rightarrow> (py_exc + nat) \<times> factory_state" where
  "runner_factory ctor kw st =
     (if \<not> list_all (\<lambda>a. hashable (snd a)) kw then (Inl (Exc ''TypeError''), st)
      else (case map_of (cache st) kw of
              Some r \<Rightarrow> (Inr r, st\<lparr>cache := (kw, r) # filter (\<lambda>e. fst e \<noteq> kw) (cache st)\<rparr>)
            | None \<Rightarrow>
                (case ctor kw of
                   Some e \<Rightarrow> (Inl e, st)
                 | None \<Rightarrow>
                     (Inr (created st),
                      \<lparr>cache = take maxsize ((kw, created st) # cache st),
                       created = Suc (created st)\<rparr>))))"

definition cache_clear :: "factory_state \<Rightarrow> factory_state" where
  "cache_clear st = st\<lparr>cache := []\<rparr>"

text \<open>A run of factory calls, each with its constructor behaviour, with no clear between.\<close>

fun factory_calls :: "((kwargs \<Rightarrow> py_exc option) \<times> kwargs) list \<Rightarrow> factory_state \<Rightarrow> factory_state" where
  "factory_calls [] st = st"
| "factory_calls (c # cs) st = factory_calls cs (snd (runner_factory (fst c) (snd c) st))"

text \<open>The operations of a session on the cache, for the states a session can reach.\<close>

datatype factory_op = Call "kwargs \<Rightarrow> py_exc option" kwargs | Clear

fun factory_run :: "factory_op list \<Rightarrow> factory_state \<Rightarrow> factory_state" where
  "factory_run [] st = st"
| "factory_run (Call ctor kw # ops) st = factory_run ops (snd (runner_factory ctor kw st))"
| "factory_run (Clear # ops) st = factory_run ops (cache_clear st)"

section \<open>Experiment\<close>

definition assign_params :: "string list \<Rightarrow> (string \<rightharpoonup> pyval) \<Rightarrow> kwargs" where
  \<comment> \<open>\<open>assign_params(func, namespace)\<close> of \<open>jaraco.functools\<close>: the parameters of
      \<open>func\<close> that the namespace has, in the order of the signature\<close>
  "assign_params params namespace =
     List.map_filter (\<lambda>k. map_option (Pair k) (namespace k)) params"

text \<open>
  The \<open>runner\<close> module is the environment of an Experiment: the parameter names of
  \<open>Command\<close> and of \<open>BenchmarkRunner\<close>, whether constructing a Runner raises, and what
  \<open>run\<close> of a Runner returns or raises for a command.
\<close>

record runner_module =
  command_params :: "string list"
  runner_params :: "string list"
  construct :: "kwargs \<Rightarrow> py_exc option"
  run :: "nat \<Rightarrow> kwargs \<Rightarrow> py_exc + pyval"

record Experiment =
  exp_name :: string
  exp_spec :: "string \<rightharpoonup> pyval"
  exp_command :: kwargs
  exp_results :: "pyval option"      \<comment> \<open>\<open>None\<close>: the object has no attribute \<open>results\<close>\<close>

definition experiment_init :: "runner_module \<Rightarrow> string \<Rightarrow> (string \<rightharpoonup> pyval) \<Rightarrow> Experiment" where
  \<comment> \<open>\<open>Experiment.__init__\<close>\<close>
  "experiment_init rm name spec =
     \<lparr>exp_name = name, exp_spec = spec,
      exp_command = assign_params (command_params rm) spec, exp_results = None\<rparr>"

definition experiment_runner ::
  "runner_module \<Rightarrow> Experiment \<Rightarrow> factory_state \<Rightarrow> (py_exc + nat) \<times> factory_state" where
  \<comment> \<open>the property \<open>Experiment.runner\<close>\<close>
  "experiment_runner rm e st =
     runner_factory (construct rm) (assign_params (runner_params rm) (exp_spec e)) st"

definition runtest ::
  "runner_module \<Rightarrow> Experiment \<Rightarrow> factory_state \<Rightarrow> (py_exc + Experiment) \<times> factory_state" where
  \<comment> \<open>\<open>Experiment.runtest\<close>: the experiment after the call, or the exception raised\<close>
  "runtest rm e st =
     (case experiment_runner rm e st of
        (Inl ex, st') \<Rightarrow> (Inl ex, st')
      | (Inr r, st') \<Rightarrow>
          (case run rm r (exp_command e) of
             Inl ex \<Rightarrow> (Inl ex, st')
           | Inr res \<Rightarrow> (Inr (e\<lparr>exp_results := Some res\<rparr>), st')))"

definition experiment_bool :: "Experiment \<Rightarrow> bool" where
  \<comment> \<open>\<open>Experiment.__bool__\<close>: \<open>hasattr(self, 'results')\<close>\<close>
  "experiment_bool e = (exp_results e \<noteq> None)"

fun truthy :: "pyval \<Rightarrow> bool" where
  \<comment> \<open>the truth value of a Python value\<close>
  "truthy PNone = False"
| "truthy (PInt n) = (n \<noteq> 0)"
| "truthy (PStr s) = (s \<noteq> [])"
| "truthy (PList xs) = (xs \<noteq> [])"
| "truthy (PTuple xs) = (xs \<noteq> [])"

section \<open>The specification's wording\<close>

definition first_nonblank_line :: "string \<Rightarrow> string option" where
  \<comment> \<open>"the first non-blank stripped line" of a documentation text\<close>
  "first_nonblank_line text =
     (case filter (\<lambda>l. l \<noteq> []) (map strip (splitlines text)) of [] \<Rightarrow> None | l # ls \<Rightarrow> Some l)"

definition immutable_sequence :: "pyval \<Rightarrow> bool" where
  \<comment> \<open>"an order-preserving immutable sequence": a tuple\<close>
  "immutable_sequence v = (case v of PTuple xs \<Rightarrow> True | _ \<Rightarrow> False)"

definition marker_on_own_line :: "string \<Rightarrow> bool" where
  \<comment> \<open>"the marker on its own line": some line of the body is the marker\<close>
  "marker_on_own_line body = (marker \<in> set (split_on LF body))"

section \<open>Example inputs\<close>

definition source_text :: "string list \<Rightarrow> string" where
  \<comment> \<open>a source text from its lines, each ended by a line feed\<close>
  "source_text ls = concat (map (\<lambda>l. l @ [LF]) ls)"

definition thing_perf_source :: string where
  "thing_perf_source = source_text
        [''def thing_perf():'', ''    setup()'', ''    # end warmup'', ''    measure()'']"

definition thing_perf :: pyfunc where
  \<comment> \<open>a function with a warmup part, an exercise part and a \<open>deps\<close> attribute\<close>
  "thing_perf =
     \<lparr>func_doc = None, func_name = ''thing_perf'',
      func_extras = None, func_deps = Some (PList [PStr ''lib'']), func_control = None,
      func_source = Inr thing_perf_source\<rparr>"

definition plain_perf_source :: string where
  "plain_perf_source = source_text
        [''def plain_perf():'', ''    '' @ DQ # ''Widget timing'' @ [DQ], ''    measure()'']"

definition plain_perf :: pyfunc where
  \<comment> \<open>a function with a one-line docstring and no marker\<close>
  "plain_perf =
     \<lparr>func_doc = Some ''Widget timing'', func_name = ''plain_perf'',
      func_extras = Some (PTuple [PStr ''a'', PStr ''b'']), func_deps = None,
      func_control = Some (PStr ''v1''),
      func_source = Inr plain_perf_source\<rparr>"

definition marker_first_perf_source :: string where
  "marker_first_perf_source = source_text
        [''def marker_first_perf():'', ''    # end warmup'', ''    measure()'']"

definition marker_first_perf :: pyfunc where
  \<comment> \<open>a function whose body starts with the marker line\<close>
  "marker_first_perf =
     \<lparr>func_doc = None, func_name = ''marker_first_perf'',
      func_extras = None, func_deps = None, func_control = None,
      func_source = Inr marker_first_perf_source\<rparr>"

definition foo_doc :: string where
  \<comment> \<open>the \<open>__doc__\<close> of a docstring that opens with a line break\<close>
  "foo_doc = LF # ''    Foo'' @ LF # ''    ''"

definition foo_perf_source :: string where
  "foo_perf_source = source_text
        [''def foo_perf():'', ''    '' @ [DQ, DQ, DQ], ''    Foo'', ''    '' @ [DQ, DQ, DQ],
         ''    measure()'']"

definition foo_perf :: pyfunc where
  \<comment> \<open>a function whose docstring has its text on the second line\<close>
  "foo_perf =
     \<lparr>func_doc = Some foo_doc, func_name = ''foo_perf'',
      func_extras = None, func_deps = None, func_control = None,
      func_source = Inr foo_perf_source\<rparr>"
definition twice_perf_source :: string where
  "twice_perf_source = source_text
        [''def twice_perf():'', ''    setup()  # end warmup'', ''    more()'',
         ''    x = 1  # end warmup (again)'', ''    measure()'']"

definition twice_perf :: pyfunc where
  \<comment> \<open>a function with the marker twice, each time inside a longer line\<close>
  "twice_perf =
     \<lparr>func_doc = None, func_name = ''twice_perf'',
      func_extras = None, func_deps = None, func_control = None,
      func_source = Inr twice_perf_source\<rparr>"

definition none_extras_perf_source :: string where
  "none_extras_perf_source = source_text
        [''def none_extras_perf():'', ''    measure()'']"

definition none_extras_perf :: pyfunc where
  \<comment> \<open>a function with \<open>none_extras_perf.extras = None\<close>\<close>
  "none_extras_perf =
     \<lparr>func_doc = None, func_name = ''none_extras_perf'',
      func_extras = Some PNone, func_deps = None, func_control = None,
      func_source = Inr none_extras_perf_source\<rparr>"

text \<open>The specifications that \<open>spec_from_func\<close> builds for the examples.\<close>

definition thing_perf_spec :: "string \<rightharpoonup> pyval" where
  "thing_perf_spec = dict_py
     [(''name'', PStr ''thing_perf''), (''deps'', PTuple [PStr ''lib'']),
      (''warmup'', PStr (''setup()'' @ [LF])), (''exercise'', PStr (LF # ''measure()'' @ [LF]))]"

definition plain_perf_spec :: "string \<rightharpoonup> pyval" where
  "plain_perf_spec = dict_py
     [(''name'', PStr ''Widget timing''), (''extras'', PTuple [PStr ''a'', PStr ''b'']),
      (''control'', PStr ''v1''),
      (''exercise'', PStr (DQ # ''Widget timing'' @ DQ # LF # ''measure()'' @ [LF]))]"

definition marker_first_perf_spec :: "string \<rightharpoonup> pyval" where
  "marker_first_perf_spec = dict_py
     [(''name'', PStr ''marker_first_perf''), (''exercise'', PStr (LF # ''measure()'' @ [LF]))]"

definition foo_perf_spec :: "string \<rightharpoonup> pyval" where
  "foo_perf_spec = dict_py
     [(''name'', PStr ''foo_perf''),
      (''exercise'',
       PStr (DQ # DQ # DQ # LF # ''Foo'' @ LF # DQ # DQ # DQ # LF # ''measure()'' @ [LF]))]"

definition none_extras_perf_spec :: "string \<rightharpoonup> pyval" where
  "none_extras_perf_spec = dict_py
     [(''name'', PStr ''none_extras_perf''), (''extras'', PNone),
      (''exercise'', PStr (''measure()'' @ [LF]))]"

definition twice_perf_pre :: string where
  "twice_perf_pre = ''setup()  # end warmup'' @ LF # ''more()'' @ LF # ''x = 1  ''"

definition twice_perf_post :: string where
  "twice_perf_post = '' (again)'' @ LF # ''measure()'' @ [LF]"

definition twice_perf_spec :: "string \<rightharpoonup> pyval" where
  "twice_perf_spec = dict_py
     [(''name'', PStr ''twice_perf''), (''warmup'', PStr twice_perf_pre),
      (''exercise'', PStr twice_perf_post)]"

text \<open>Import environments: one whose module stops the interpreter, two that fail.\<close>

definition no_attrs :: "pyfunc pymodule" where
  "no_attrs = \<lparr>mod_dir = [], mod_attr = (\<lambda>n. thing_perf)\<rparr>"

definition exiting_importlib :: "(unit, pyfunc) importlib" where
  \<comment> \<open>the module calls \<open>sys.exit()\<close> when it is executed\<close>
  "exiting_importlib =
     \<lparr>find_spec = (\<lambda>n. Inr (Some ())),
      module_from_spec = (\<lambda>sp. Inr no_attrs),
      exec_module = (\<lambda>sp m. Inl (BaseExc ''SystemExit''))\<rparr>"

definition broken_importlib :: "(unit, pyfunc) importlib" where
  \<comment> \<open>the module has a syntax error\<close>
  "broken_importlib =
     \<lparr>find_spec = (\<lambda>n. Inr (Some ())),
      module_from_spec = (\<lambda>sp. Inr no_attrs),
      exec_module = (\<lambda>sp m. Inl (Exc ''SyntaxError''))\<rparr>"

definition missing_importlib :: "(unit, pyfunc) importlib" where
  \<comment> \<open>no module of that name is found\<close>
  "missing_importlib =
     \<lparr>find_spec = (\<lambda>n. Inr None),
      module_from_spec = (\<lambda>sp. Inr no_attrs),
      exec_module = (\<lambda>sp m. Inr m)\<rparr>"

text \<open>A runner module whose runs return the empty string, and an experiment of it.\<close>

definition always_constructs :: "kwargs \<Rightarrow> py_exc option" where
  "always_constructs kw = None"

definition empty_result_run :: "nat \<Rightarrow> kwargs \<Rightarrow> py_exc + pyval" where
  "empty_result_run r command = Inr (PStr [])"

definition quiet_runner :: runner_module where
  "quiet_runner =
     \<lparr>command_params = [''exercise'', ''warmup''],
      runner_params = [''extras'', ''deps'', ''control'', ''target'', ''baseline''],
      construct = always_constructs, run = empty_result_run\<rparr>"

definition quiet_experiment :: Experiment where
  "quiet_experiment = experiment_init quiet_runner ''bench.py:thing_perf'' thing_perf_spec"

text \<open>Calls of the runner factory with numbered targets.\<close>

definition target_kw :: "nat \<Rightarrow> kwargs" where
  "target_kw n = [(''target'', PInt (int n))]"

definition first_target_state :: factory_state where
  \<comment> \<open>the cache after the first call, for target 0, of a session\<close>
  "first_target_state = \<lparr>cache = [(target_kw 0, 0)], created = Suc 0\<rparr>"

definition target_calls :: "nat list \<Rightarrow> ((kwargs \<Rightarrow> py_exc option) \<times> kwargs) list" where
  "target_calls ns = map (\<lambda>n. (always_constructs, target_kw n)) ns"

section \<open>Invariants of the runner cache\<close>

definition keys_distinct :: "factory_state \<Rightarrow> bool" where
  \<comment> \<open>no key has two entries\<close>
  "keys_distinct st = distinct (map fst (cache st))"

definition kept :: "kwargs \<Rightarrow> nat \<Rightarrow> kwargs set \<Rightarrow> factory_state \<Rightarrow> bool" where
  \<comment> \<open>the cache holds Runner \<open>r\<close> for \<open>kw\<close>, and every more recent entry has its key in \<open>P\<close>\<close>
  "kept kw r P st =
     (keys_distinct st \<and> (\<exists>pre post. cache st = pre @ (kw, r) # post \<and> fst ` set pre \<subseteq> P))"

section \<open>Positions of a match\<close>

text \<open>
  Where \<open>perf\<close> stands in a name, and what stands left and right of it. These say what
  a match of the pattern is; the matcher does not use them.
\<close>

definition perf_at :: "string \<Rightarrow> nat \<Rightarrow> bool" where
  "perf_at s k = (k + 4 \<le> length s \<and> s ! k = CHR ''p'' \<and> s ! (k + 1) = CHR ''e''
                  \<and> s ! (k + 2) = CHR ''r'' \<and> s ! (k + 3) = CHR ''f'')"

definition left_ok :: "string \<Rightarrow> nat \<Rightarrow> bool" where
  "left_ok s k = (k = 0 \<or> \<not> is_word (s ! (k - 1)) \<or> s ! (k - 1) = CHR ''_'')"

definition right_ok :: "string \<Rightarrow> nat \<Rightarrow> bool" where
  "right_ok s k = (k + 4 = length s \<or> \<not> is_word (s ! (k + 4)) \<or> s ! (k + 4) = CHR ''_'')"

section \<open>What the pattern matches\<close>

lemma rmatch_Seq_nonempty:
  "rmatch (Seq a b) s i \<noteq> [] \<longleftrightarrow> (\<exists>j \<in> set (rmatch a s i). rmatch b s j \<noteq> [])"
  by auto

lemma set_rmatch_delim:
  "j \<in> set (rmatch (Alt WordB (Lit c)) s i) \<longleftrightarrow>
     (word_boundary s i \<and> j = i) \<or> (i < length s \<and> s ! i = c \<and> j = Suc i)"
  by auto

lemma rmatch_delim_nonempty:
  "rmatch (Alt WordB (Lit c)) s i \<noteq> [] \<longleftrightarrow> word_boundary s i \<or> (i < length s \<and> s ! i = c)"
  by auto

lemma rmatch_Lit_Seq_nonempty:
  "rmatch (Seq (Lit c) b) s i \<noteq> [] \<longleftrightarrow> i < length s \<and> s ! i = c \<and> rmatch b s (Suc i) \<noteq> []"
  by auto

lemma rmatch_perf_nonempty:
  "rmatch perf_re s i \<noteq> [] \<longleftrightarrow>
     (\<exists>k. ((word_boundary s i \<and> k = i) \<or> (i < length s \<and> s ! i = CHR ''_'' \<and> k = Suc i))
          \<and> perf_at s k
          \<and> (word_boundary s (k + 4) \<or> (k + 4 < length s \<and> s ! (k + 4) = CHR ''_'')))"
proof -
  have tail: "rmatch (Seq (Lit (CHR ''p'')) (Seq (Lit (CHR ''e'')) (Seq (Lit (CHR ''r''))
                (Seq (Lit (CHR ''f'')) (Alt WordB (Lit (CHR ''_''))))))) s k \<noteq> []
        \<longleftrightarrow> perf_at s k \<and> (word_boundary s (k + 4) \<or> (k + 4 < length s \<and> s ! (k + 4) = CHR ''_''))"
    for k
    unfolding rmatch_Lit_Seq_nonempty rmatch_delim_nonempty perf_at_def
    by (auto simp: numeral_eq_Suc)
  show ?thesis
    unfolding perf_re_def rmatch_Seq_nonempty[of "Alt WordB (Lit (CHR ''_''))"] Bex_def
      set_rmatch_delim tail
    by blast
qed

lemma re_search_iff: "re_search r s \<longleftrightarrow> (\<exists>i \<le> length s. rmatch r s i \<noteq> [])"
proof -
  have eq: "set [0..<Suc (length s)] = {i. i \<le> length s}" by auto
  show ?thesis unfolding re_search_def list_ex_iff eq by blast
qed

lemma perf_at_word:
  assumes "perf_at s k"
  shows "word_at s k" and "word_at s (k + 3)" and "k < length s"
  using assms by (auto simp: perf_at_def word_at_def is_word_def)

lemma boundary_left:
  assumes "perf_at s k"
  shows "word_boundary s k \<longleftrightarrow> k = 0 \<or> \<not> is_word (s ! (k - 1))"
  using perf_at_word[OF assms] by (auto simp: word_boundary_def word_at_def)

lemma boundary_right:
  assumes "perf_at s k"
  shows "word_boundary s (k + 4) \<longleftrightarrow> k + 4 = length s \<or> \<not> is_word (s ! (k + 4))"
proof -
  have "k + 4 \<le> length s" using assms by (simp add: perf_at_def)
  moreover have "k + 4 - 1 = k + 3" by simp
  then have "word_at s (k + 4 - 1)" using perf_at_word(2)[OF assms] by (simp only:)
  ultimately show ?thesis by (auto simp: word_boundary_def word_at_def)
qed

lemma eligible_positions:
  "eligible s \<longleftrightarrow> (\<exists>k. perf_at s k \<and> left_ok s k \<and> right_ok s k)"
proof
  assume "eligible s"
  then obtain i k where i: "i \<le> length s"
    and l: "(word_boundary s i \<and> k = i) \<or> (i < length s \<and> s ! i = CHR ''_'' \<and> k = Suc i)"
    and p: "perf_at s k"
    and r: "word_boundary s (k + 4) \<or> (k + 4 < length s \<and> s ! (k + 4) = CHR ''_'')"
    unfolding eligible_def re_search_iff rmatch_perf_nonempty by blast
  from l have "left_ok s k" using boundary_left[OF p] by (auto simp: left_ok_def)
  moreover from r have "right_ok s k" using boundary_right[OF p] by (auto simp: right_ok_def)
  ultimately show "\<exists>k. perf_at s k \<and> left_ok s k \<and> right_ok s k" using p by blast
next
  assume "\<exists>k. perf_at s k \<and> left_ok s k \<and> right_ok s k"
  then obtain k where p: "perf_at s k" and l: "left_ok s k" and r: "right_ok s k" by blast
  have kl: "k < length s" and k4: "k + 4 \<le> length s"
    using p by (simp_all add: perf_at_def)
  have right: "word_boundary s (k + 4) \<or> (k + 4 < length s \<and> s ! (k + 4) = CHR ''_'')"
    using r boundary_right[OF p] k4 by (auto simp: right_ok_def)
  show "eligible s"
  proof (cases "word_boundary s k")
    case True
    then have "rmatch perf_re s k \<noteq> []"
      unfolding rmatch_perf_nonempty using p right by blast
    then show ?thesis unfolding eligible_def re_search_iff using kl by (intro exI[of _ k]) simp
  next
    case False
    with l boundary_left[OF p] have k0: "0 < k" and u: "s ! (k - 1) = CHR ''_''"
      by (auto simp: left_ok_def)
    have "k - 1 < length s \<and> s ! (k - 1) = CHR ''_'' \<and> k = Suc (k - 1)"
      using k0 kl u by simp
    then have "rmatch perf_re s (k - 1) \<noteq> []"
      unfolding rmatch_perf_nonempty using p right by blast
    then show ?thesis unfolding eligible_def re_search_iff using kl by (intro exI[of _ "k - 1"]) simp
  qed
qed

lemma perf_at_split:
  assumes "perf_at s k"
  shows "s = take k s @ ''perf'' @ drop (k + 4) s"
proof -
  from assms have len: "k + 4 \<le> length s" and
    c: "s ! k = CHR ''p''" "s ! (k + 1) = CHR ''e''" "s ! (k + 2) = CHR ''r''" "s ! (k + 3) = CHR ''f''"
    by (simp_all add: perf_at_def)
  have "drop k s = s ! k # drop (Suc k) s" using len by (simp add: Cons_nth_drop_Suc)
  also have "drop (Suc k) s = s ! (k + 1) # drop (Suc (Suc k)) s"
    using len by (simp add: Cons_nth_drop_Suc)
  also have "drop (Suc (Suc k)) s = s ! (k + 2) # drop (Suc (Suc (Suc k))) s"
    using len by (simp add: Cons_nth_drop_Suc)
  also have "drop (Suc (Suc (Suc k))) s = s ! (k + 3) # drop (k + 4) s"
    using len Cons_nth_drop_Suc[of "k + 3" s] by (simp add: numeral_eq_Suc)
  finally have "drop k s = ''perf'' @ drop (k + 4) s" using c by simp
  then have "take k s @ drop k s = take k s @ ''perf'' @ drop (k + 4) s" by simp
  then show ?thesis by simp
qed

lemma perf_at_append: "perf_at (pre @ ''perf'' @ post) (length pre)"
  by (simp add: perf_at_def nth_append)

lemma left_ok_append:
  "left_ok (pre @ rest) (length pre) \<longleftrightarrow>
     pre = [] \<or> \<not> is_word (last pre) \<or> last pre = CHR ''_''"
  by (cases pre rule: rev_cases) (simp_all add: left_ok_def nth_append)

lemma right_ok_append:
  "right_ok (pre @ ''perf'' @ post) (length pre) \<longleftrightarrow>
     post = [] \<or> \<not> is_word (hd post) \<or> hd post = CHR ''_''"
  by (cases post) (simp_all add: right_ok_def nth_append)

lemma eligible_iff:
  "eligible s \<longleftrightarrow>
     (\<exists>pre post. s = pre @ ''perf'' @ post
        \<and> (pre = [] \<or> \<not> is_word (last pre) \<or> last pre = CHR ''_'')
        \<and> (post = [] \<or> \<not> is_word (hd post) \<or> hd post = CHR ''_''))"
proof
  assume "eligible s"
  then obtain k where p: "perf_at s k" and l: "left_ok s k" and r: "right_ok s k"
    unfolding eligible_positions by blast
  let ?pre = "take k s" and ?post = "drop (k + 4) s"
  have s: "s = ?pre @ ''perf'' @ ?post" by (rule perf_at_split[OF p])
  have k: "length ?pre = k" using p by (simp add: perf_at_def)
  from l have "left_ok (?pre @ ''perf'' @ ?post) (length ?pre)" unfolding k s[symmetric] .
  then have 1: "?pre = [] \<or> \<not> is_word (last ?pre) \<or> last ?pre = CHR ''_''"
    unfolding left_ok_append .
  from r have "right_ok (?pre @ ''perf'' @ ?post) (length ?pre)" unfolding k s[symmetric] .
  then have 2: "?post = [] \<or> \<not> is_word (hd ?post) \<or> hd ?post = CHR ''_''"
    unfolding right_ok_append .
  from s 1 2 show "\<exists>pre post. s = pre @ ''perf'' @ post
        \<and> (pre = [] \<or> \<not> is_word (last pre) \<or> last pre = CHR ''_'')
        \<and> (post = [] \<or> \<not> is_word (hd post) \<or> hd post = CHR ''_'')"
    by blast
next
  assume "\<exists>pre post. s = pre @ ''perf'' @ post
        \<and> (pre = [] \<or> \<not> is_word (last pre) \<or> last pre = CHR ''_'')
        \<and> (post = [] \<or> \<not> is_word (hd post) \<or> hd post = CHR ''_'')"
  then obtain pre post where s: "s = pre @ ''perf'' @ post"
    and 1: "pre = [] \<or> \<not> is_word (last pre) \<or> last pre = CHR ''_''"
    and 2: "post = [] \<or> \<not> is_word (hd post) \<or> hd post = CHR ''_''"
    by blast
  have "perf_at s (length pre)" unfolding s by (rule perf_at_append)
  moreover have "left_ok s (length pre)" unfolding s left_ok_append by (rule 1)
  moreover have "right_ok s (length pre)" unfolding s right_ok_append by (rule 2)
  ultimately show "eligible s" unfolding eligible_positions by blast
qed

lemma dir_None_not_eligible: "filter eligible dir_None = []"
  by code_simp

lemma funcs_of_no_module:
  "load_module env (replace_char (CHR ''/'') (CHR ''.'') (fst (rpartition ''.'' full))) = Inr None
   \<Longrightarrow> funcs_from_name env full = Inr []"
  by (simp add: funcs_from_name_def dir_None_not_eligible)

section \<open>Searching from the right\<close>

text \<open>
  \<open>sublist sep s\<close> is Python's \<open>sep in s\<close>. \<open>rfind\<close> finds an occurrence exactly when there
  is one, the text splits around it, and no occurrence starts further right.
\<close>

lemma rfind_None_iff: "rfind sep s = None \<longleftrightarrow> \<not> sublist sep s"
  by (induction s) (auto simp: sublist_Cons_right split: option.splits)

lemma rfind_Some_split:
  "rfind sep s = Some i \<Longrightarrow> take i s @ sep @ drop (i + length sep) s = s"
proof (induction s arbitrary: i)
  case Nil
  then show ?case by (simp split: if_splits)
next
  case (Cons x xs)
  show ?case
  proof (cases "rfind sep xs")
    case None
    with Cons.prems have i: "i = 0" and p: "prefix sep (x # xs)"
      by (auto split: if_splits)
    from p obtain zs where zs: "x # xs = sep @ zs" by (auto simp: prefix_def)
    have "drop (length sep) (x # xs) = zs" unfolding zs by simp
    then show ?thesis using i zs by simp
  next
    case (Some j)
    with Cons.prems have "i = Suc j" by simp
    with Cons.IH[OF Some] show ?thesis by simp
  qed
qed

lemma rfind_Some_last:
  "sep \<noteq> [] \<Longrightarrow> rfind sep s = Some i \<Longrightarrow> \<not> sublist sep (drop (Suc i) s)"
proof (induction s arbitrary: i)
  case Nil
  then show ?case by (simp split: if_splits)
next
  case (Cons x xs)
  show ?case
  proof (cases "rfind sep xs")
    case None
    with Cons.prems have "i = 0" by (auto split: if_splits)
    with None show ?thesis by (simp add: rfind_None_iff)
  next
    case (Some j)
    with Cons.prems have "i = Suc j" by simp
    with Cons.IH[OF Cons.prems(1) Some] show ?thesis by simp
  qed
qed

lemma rfind_last_occurrence:
  "sep \<noteq> [] \<Longrightarrow> \<not> sublist sep (tl (sep @ post)) \<Longrightarrow> rfind sep (pre @ sep @ post) = Some (length pre)"
proof (induction pre)
  case Nil
  then obtain x rest where s: "sep @ post = x # rest" by (cases "sep @ post") auto
  with Nil have "rfind sep rest = None" by (simp add: rfind_None_iff)
  moreover have "prefix sep (x # rest)" unfolding s[symmetric] by simp
  ultimately show ?case using s by simp
next
  case (Cons p pre)
  then show ?case by simp
qed

lemma rpartition_found:
  assumes "sep \<noteq> []" and "sublist sep s"
  shows "\<exists>w e. rpartition sep s = (w, sep, e) \<and> w @ sep @ e = s \<and> \<not> sublist sep (tl (sep @ e))"
proof -
  from assms obtain i where i: "rfind sep s = Some i"
    using rfind_None_iff[of sep s] by (cases "rfind sep s") auto
  let ?w = "take i s" and ?e = "drop (i + length sep) s"
  have split: "?w @ sep @ ?e = s" by (rule rfind_Some_split[OF i])
  have len: "i \<le> length s"
  proof (rule ccontr)
    assume "\<not> i \<le> length s"
    then have "?w = s" by simp
    with split have "sep @ ?e = []" by (metis append_self_conv)
    with assms(1) show False by simp
  qed
  have "drop i (?w @ sep @ ?e) = sep @ ?e" using len by simp
  then have "drop i s = sep @ ?e" using split by simp
  then have "tl (drop i s) = tl (sep @ ?e)" by simp
  then have "drop (Suc i) s = tl (sep @ ?e)" by (simp add: drop_Suc drop_tl)
  with rfind_Some_last[OF assms(1) i] have "\<not> sublist sep (tl (sep @ ?e))" by simp
  with i split show ?thesis by (simp add: rpartition_def)
qed

lemma rpartition_not_found: "\<not> sublist sep s \<Longrightarrow> rpartition sep s = ([], [], s)"
  by (simp add: rpartition_def rfind_None_iff[symmetric])

lemma rpartition_last_occurrence:
  "sep \<noteq> [] \<Longrightarrow> \<not> sublist sep (tl (sep @ post)) \<Longrightarrow> rpartition sep (pre @ sep @ post) = (pre, sep, post)"
  by (simp add: rpartition_def rfind_last_occurrence)

lemma split_on_nonempty: "split_on c s \<noteq> []"
  by (induction s) (auto split: list.splits)

lemma split_on_hd_prefix: "prefix (hd (split_on c s)) s"
  by (induction s) (auto split: list.splits)

lemma split_on_sublist: "l \<in> set (split_on c s) \<Longrightarrow> sublist l s"
proof (induction s arbitrary: l)
  case Nil
  then show ?case by simp
next
  case (Cons x xs)
  obtain h t where ht: "split_on c xs = h # t"
    using split_on_nonempty[of c xs] by (cases "split_on c xs") auto
  have h: "prefix h xs" using split_on_hd_prefix[of c xs] ht by simp
  from Cons.prems ht have "l = [] \<or> l = x # h \<or> l \<in> set (split_on c xs)"
    by (auto split: if_splits)
  then show ?case
  proof (elim disjE)
    assume "l = []"
    then show ?thesis by simp
  next
    assume "l = x # h"
    with h have "prefix l (x # xs)" by simp
    then show ?thesis by (rule prefix_imp_sublist)
  next
    assume "l \<in> set (split_on c xs)"
    then show ?thesis using Cons.IH by (simp add: sublist_Cons_right)
  qed
qed

lemma own_line_sublist: "marker_on_own_line body \<Longrightarrow> sublist marker body"
  by (simp add: marker_on_own_line_def split_on_sublist)

section \<open>The keys of a built specification\<close>

lemma marker_nonempty: "marker \<noteq> []" by (simp add: marker_def)

lemma yield_frozen_cases:
  "yield_frozen key a = Inr ys \<Longrightarrow>
     (a = None \<and> ys = []) \<or> (\<exists>v t. a = Some v \<and> freeze v = Inr t \<and> ys = [(key, t)])"
  by (auto simp: yield_frozen_def split: option.splits sum.splits)

lemma spec_from_func_items:
  assumes "spec_from_func f = Inr sp"
  obtains src extras deps w s e where
      "func_source f = Inr src"
      "yield_frozen ''extras'' (func_extras f) = Inr extras"
      "yield_frozen ''deps'' (func_deps f) = Inr deps"
      "rpartition marker (body_of src) = (w, s, e)"
      "sp = dict_py ([(''name'', PStr (or_name (first_line (func_doc f)) (func_name f)))]
           @ extras @ deps
           @ (case func_control f of None \<Rightarrow> [] | Some v \<Rightarrow> [(''control'', v)])
           @ (if w \<noteq> [] then [(''warmup'', PStr w)] else [])
           @ [(''exercise'', PStr e)])"
proof -
  from assms obtain items where items: "spec_items f = Inr items" and sp: "sp = dict_py items"
    by (cases "spec_items f") (simp_all add: spec_from_func_def)
  obtain extras where ex: "yield_frozen ''extras'' (func_extras f) = Inr extras"
    using items by (cases "yield_frozen ''extras'' (func_extras f)") (simp_all add: spec_items_def)
  obtain deps where de: "yield_frozen ''deps'' (func_deps f) = Inr deps"
    using items ex by (cases "yield_frozen ''deps'' (func_deps f)") (simp_all add: spec_items_def)
  obtain src where src: "func_source f = Inr src"
    using items ex de by (cases "func_source f") (simp_all add: spec_items_def)
  obtain w s e where rp: "rpartition marker (body_of src) = (w, s, e)"
    by (cases "rpartition marker (body_of src)") auto
  have "items = [(''name'', PStr (or_name (first_line (func_doc f)) (func_name f)))]
           @ extras @ deps
           @ (case func_control f of None \<Rightarrow> [] | Some v \<Rightarrow> [(''control'', v)])
           @ (if w \<noteq> [] then [(''warmup'', PStr w)] else [])
           @ [(''exercise'', PStr e)]"
    using items ex de src rp by (simp add: spec_items_def)
  with sp src ex de rp show ?thesis using that by blast
qed

lemma spec_from_func_keys:
  assumes "spec_from_func f = Inr sp"
  obtains src w s e where
      "func_source f = Inr src"
      "rpartition marker (body_of src) = (w, s, e)"
      "sp ''name'' = Some (PStr (or_name (first_line (func_doc f)) (func_name f)))"
      "sp ''exercise'' = Some (PStr e)"
      "sp ''warmup'' = (if w = [] then None else Some (PStr w))"
      "sp ''control'' = func_control f"
      "func_extras f = None \<longrightarrow> sp ''extras'' = None"
      "\<forall>v. func_extras f = Some v \<longrightarrow> (\<exists>t. freeze v = Inr t \<and> sp ''extras'' = Some t)"
      "func_deps f = None \<longrightarrow> sp ''deps'' = None"
      "\<forall>v. func_deps f = Some v \<longrightarrow> (\<exists>t. freeze v = Inr t \<and> sp ''deps'' = Some t)"
proof -
  from assms obtain src extras deps w s e where
    src: "func_source f = Inr src" and
    ex: "yield_frozen ''extras'' (func_extras f) = Inr extras" and
    de: "yield_frozen ''deps'' (func_deps f) = Inr deps" and
    rp: "rpartition marker (body_of src) = (w, s, e)" and
    sp: "sp = dict_py ([(''name'', PStr (or_name (first_line (func_doc f)) (func_name f)))]
           @ extras @ deps
           @ (case func_control f of None \<Rightarrow> [] | Some v \<Rightarrow> [(''control'', v)])
           @ (if w \<noteq> [] then [(''warmup'', PStr w)] else [])
           @ [(''exercise'', PStr e)])"
    by (rule spec_from_func_items)
  note exc = yield_frozen_cases[OF ex] and dec = yield_frozen_cases[OF de]
  have 1: "sp ''name'' = Some (PStr (or_name (first_line (func_doc f)) (func_name f)))"
    using exc dec unfolding sp dict_py_def by (auto simp: map_add_def split: option.splits)
  have 2: "sp ''exercise'' = Some (PStr e)"
    unfolding sp dict_py_def by simp
  have 3: "sp ''warmup'' = (if w = [] then None else Some (PStr w))"
    using exc dec unfolding sp dict_py_def by (auto simp: map_add_def split: option.splits)
  have 4: "sp ''control'' = func_control f"
    using exc dec unfolding sp dict_py_def by (auto simp: map_add_def split: option.splits)
  have 5: "func_extras f = None \<longrightarrow> sp ''extras'' = None"
    using exc dec unfolding sp dict_py_def by (auto simp: map_add_def split: option.splits)
  have 6: "\<forall>v. func_extras f = Some v \<longrightarrow> (\<exists>t. freeze v = Inr t \<and> sp ''extras'' = Some t)"
    using exc dec unfolding sp dict_py_def by (auto simp: map_add_def split: option.splits)
  have 7: "func_deps f = None \<longrightarrow> sp ''deps'' = None"
    using exc dec unfolding sp dict_py_def by (auto simp: map_add_def split: option.splits)
  have 8: "\<forall>v. func_deps f = Some v \<longrightarrow> (\<exists>t. freeze v = Inr t \<and> sp ''deps'' = Some t)"
    using exc dec unfolding sp dict_py_def by (auto simp: map_add_def split: option.splits)
  from that[OF src rp 1 2 3 4 5 6 7 8] show ?thesis .
qed

lemma freeze_iterable: "iter_py v = Some xs \<Longrightarrow> freeze v = Inr (PTuple xs)"
  by (cases v) (simp_all add: freeze_def tuple_py_def)

lemma first_line_first_nonblank:
  "splitlines d = l # ls \<Longrightarrow> strip l \<noteq> [] \<Longrightarrow> first_nonblank_line d = Some (strip l)"
  by (simp add: first_nonblank_line_def)

text \<open>When \<open>spec_from_func\<close> returns a specification.\<close>

lemma spec_from_func_returns:
  assumes "func_source f = Inr src"
    and "\<forall>v. func_extras f = Some v \<longrightarrow> v = PNone \<or> iter_py v \<noteq> None"
    and "\<forall>v. func_deps f = Some v \<longrightarrow> v = PNone \<or> iter_py v \<noteq> None"
  shows "\<exists>sp. spec_from_func f = Inr sp"
proof -
  have "\<exists>ys. yield_frozen ''extras'' (func_extras f) = Inr ys"
    using assms(2)
    by (cases "func_extras f") (auto simp: yield_frozen_def freeze_def tuple_py_def)
  then obtain ex where ex: "yield_frozen ''extras'' (func_extras f) = Inr ex" ..
  have "\<exists>ys. yield_frozen ''deps'' (func_deps f) = Inr ys"
    using assms(3)
    by (cases "func_deps f") (auto simp: yield_frozen_def freeze_def tuple_py_def)
  then obtain de where de: "yield_frozen ''deps'' (func_deps f) = Inr de" ..
  obtain w s e where rp: "rpartition marker (body_of src) = (w, s, e)"
    by (cases "rpartition marker (body_of src)") auto
  have "\<exists>items. spec_items f = Inr items"
    using ex de assms(1) rp by (simp add: spec_items_def)
  then show ?thesis by (auto simp: spec_from_func_def)
qed

lemma spec_from_func_raises:
  "func_source f = Inl e \<Longrightarrow> \<exists>e'. spec_from_func f = Inl e'"
  by (auto simp: spec_from_func_def spec_items_def split: sum.splits)

section \<open>The examples, evaluated\<close>

lemma thing_perf_built: "spec_from_func thing_perf = Inr thing_perf_spec"
proof -
  have "spec_items thing_perf =
     Inr [(''name'', PStr ''thing_perf''), (''deps'', PTuple [PStr ''lib'']),
          (''warmup'', PStr (''setup()'' @ [LF])), (''exercise'', PStr (LF # ''measure()'' @ [LF]))]"
    by code_simp
  then show ?thesis by (simp add: spec_from_func_def thing_perf_spec_def)
qed

lemma plain_perf_built: "spec_from_func plain_perf = Inr plain_perf_spec"
proof -
  have "spec_items plain_perf =
     Inr [(''name'', PStr ''Widget timing''), (''extras'', PTuple [PStr ''a'', PStr ''b'']),
          (''control'', PStr ''v1''),
          (''exercise'', PStr (DQ # ''Widget timing'' @ DQ # LF # ''measure()'' @ [LF]))]"
    by code_simp
  then show ?thesis by (simp add: spec_from_func_def plain_perf_spec_def)
qed

lemma marker_first_perf_built: "spec_from_func marker_first_perf = Inr marker_first_perf_spec"
proof -
  have "spec_items marker_first_perf =
     Inr [(''name'', PStr ''marker_first_perf''), (''exercise'', PStr (LF # ''measure()'' @ [LF]))]"
    by code_simp
  then show ?thesis by (simp add: spec_from_func_def marker_first_perf_spec_def)
qed

lemma foo_perf_built: "spec_from_func foo_perf = Inr foo_perf_spec"
proof -
  have "spec_items foo_perf =
     Inr [(''name'', PStr ''foo_perf''),
      (''exercise'',
       PStr (DQ # DQ # DQ # LF # ''Foo'' @ LF # DQ # DQ # DQ # LF # ''measure()'' @ [LF]))]"
    by code_simp
  then show ?thesis by (simp add: spec_from_func_def foo_perf_spec_def)
qed

lemma twice_perf_built: "spec_from_func twice_perf = Inr twice_perf_spec"
proof -
  have "spec_items twice_perf =
     Inr [(''name'', PStr ''twice_perf''), (''warmup'', PStr twice_perf_pre),
      (''exercise'', PStr twice_perf_post)]"
    by code_simp
  then show ?thesis by (simp add: spec_from_func_def twice_perf_spec_def)
qed

lemma none_extras_perf_built: "spec_from_func none_extras_perf = Inr none_extras_perf_spec"
proof -
  have "spec_items none_extras_perf =
     Inr [(''name'', PStr ''none_extras_perf''), (''extras'', PNone),
      (''exercise'', PStr (''measure()'' @ [LF]))]"
    by code_simp
  then show ?thesis by (simp add: spec_from_func_def none_extras_perf_spec_def)
qed

lemma thing_perf_body:
  "body_of thing_perf_source = ''setup()'' @ LF # ''# end warmup'' @ LF # ''measure()'' @ [LF]"
  by code_simp

lemma plain_perf_body:
  "body_of plain_perf_source = DQ # ''Widget timing'' @ DQ # LF # ''measure()'' @ [LF]"
  by code_simp

lemma marker_first_perf_body:
  "body_of marker_first_perf_source = ''# end warmup'' @ LF # ''measure()'' @ [LF]"
  by code_simp

lemma twice_perf_body:
  "body_of twice_perf_source = twice_perf_pre @ marker @ twice_perf_post"
  by code_simp

lemma plain_perf_no_marker: "\<not> sublist marker (body_of plain_perf_source)"
  by code_simp

lemma twice_perf_last: "\<not> sublist marker (tl (marker @ twice_perf_post))"
  by code_simp

lemma marker_first_own_line: "marker_on_own_line (body_of marker_first_perf_source)"
  by code_simp

lemma thing_perf_own_line: "marker_on_own_line (body_of thing_perf_source)"
  by code_simp

lemma lookups_thing_perf:
  "thing_perf_spec ''warmup'' = Some (PStr (''setup()'' @ [LF]))"
  "thing_perf_spec ''exercise'' = Some (PStr (LF # ''measure()'' @ [LF]))"
  "thing_perf_spec ''deps'' = Some (PTuple [PStr ''lib''])"
  "thing_perf_spec ''extras'' = None"
  "thing_perf_spec ''control'' = None"
  "thing_perf_spec ''name'' = Some (PStr ''thing_perf'')"
  by (simp_all add: thing_perf_spec_def dict_py_def)

lemma lookups_plain_perf:
  "plain_perf_spec ''name'' = Some (PStr ''Widget timing'')"
  "plain_perf_spec ''extras'' = Some (PTuple [PStr ''a'', PStr ''b''])"
  "plain_perf_spec ''deps'' = None"
  "plain_perf_spec ''control'' = Some (PStr ''v1'')"
  "plain_perf_spec ''warmup'' = None"
  by (simp_all add: plain_perf_spec_def dict_py_def)

lemma quiet_experiment_runner:
  "experiment_runner quiet_runner quiet_experiment factory_init =
     (Inr 0, \<lparr>cache = [([(''deps'', PTuple [PStr ''lib''])], 0)], created = Suc 0\<rparr>)"
  by code_simp

section \<open>The runner cache keeps its recent entries\<close>

lemma runner_factory_distinct:
  assumes "keys_distinct st"
  shows "keys_distinct (snd (runner_factory ctor kw st))"
proof (cases "map_of (cache st) kw")
  case None
  then have "kw \<notin> fst ` set (cache st)" by (simp add: map_of_eq_None_iff)
  then have "distinct (map fst ((kw, created st) # cache st))"
    using assms by (simp add: keys_distinct_def)
  then have "distinct (take maxsize (map fst ((kw, created st) # cache st)))"
    by (rule distinct_take)
  then have "distinct (map fst (take maxsize ((kw, created st) # cache st)))"
    by (simp only: take_map)
  with None assms show ?thesis
    by (auto simp: runner_factory_def keys_distinct_def split: option.splits)
next
  case (Some r)
  have "distinct (map fst (filter (\<lambda>e. fst e \<noteq> kw) (cache st)))"
    using assms by (simp add: keys_distinct_def distinct_map_filter)
  with Some assms show ?thesis
    by (auto simp: runner_factory_def keys_distinct_def)
qed

lemma factory_run_distinct:
  "keys_distinct st \<Longrightarrow> keys_distinct (factory_run ops st)"
proof (induction ops arbitrary: st)
  case Nil
  then show ?case by simp
next
  case (Cons op ops)
  show ?case
  proof (cases op)
    case (Call ctor kw)
    with Cons show ?thesis by (simp add: runner_factory_distinct)
  next
    case Clear
    have "keys_distinct (cache_clear st)" by (simp add: keys_distinct_def cache_clear_def)
    with Clear Cons show ?thesis by simp
  qed
qed

lemma reachable_distinct: "keys_distinct (factory_run ops factory_init)"
  by (rule factory_run_distinct) (simp add: keys_distinct_def factory_init_def)

lemma kept_lookup:
  assumes "kept kw r P st"
  shows "map_of (cache st) kw = Some r"
proof -
  from assms obtain pre post where c: "cache st = pre @ (kw, r) # post"
    and d: "distinct (map fst (cache st))"
    by (auto simp: kept_def keys_distinct_def)
  from d c have "kw \<notin> fst ` set pre" by auto
  then have "map_of pre kw = None" by (simp add: map_of_eq_None_iff)
  with c show ?thesis by (simp add: map_add_def)
qed

lemma kept_mono: "kept kw r P st \<Longrightarrow> P \<subseteq> Q \<Longrightarrow> kept kw r Q st"
  by (auto simp: kept_def)

lemma kept_step:
  assumes k: "kept kw r P st"
    and fin: "finite P"
    and card: "card (P \<union> ({k} - {kw})) < maxsize"
  shows "kept kw r (P \<union> ({k} - {kw})) (snd (runner_factory ctor k st))"
proof -
  let ?st' = "snd (runner_factory ctor k st)"
  let ?Q = "P \<union> ({k} - {kw})"
  from k obtain pre post where c: "cache st = pre @ (kw, r) # post"
    and sub: "fst ` set pre \<subseteq> P" and d: "keys_distinct st"
    by (auto simp: kept_def)
  have d': "keys_distinct ?st'" using d by (rule runner_factory_distinct)
  have same: "kept kw r ?Q st" using k by (rule kept_mono) auto
  have dpre: "distinct (map fst pre)" and kwpre: "kw \<notin> fst ` set pre"
    using d c by (auto simp: keys_distinct_def)
  show ?thesis
  proof (cases "list_all (\<lambda>a. hashable (snd a)) k")
    case False
    then have "?st' = st" by (simp add: runner_factory_def)
    with same show ?thesis by simp
  next
    case hash: True
    show ?thesis
    proof (cases "map_of (cache st) k")
      case (Some r')
      have st': "cache ?st' = (k, r') # filter (\<lambda>e. fst e \<noteq> k) (cache st)"
        using hash Some by (simp add: runner_factory_def)
      show ?thesis
      proof (cases "k = kw")
        case True
        with Some kept_lookup[OF k] have "r' = r" by simp
        with st' True have "cache ?st' = [] @ (kw, r) # filter (\<lambda>e. fst e \<noteq> kw) (cache st)"
          by simp
        then have "\<exists>pre post. cache ?st' = pre @ (kw, r) # post \<and> fst ` set pre \<subseteq> ?Q"
          by (intro exI[of _ "[]"] exI conjI) auto
        with d' show ?thesis by (simp add: kept_def)
      next
        case False
        let ?f = "filter (\<lambda>e. fst e \<noteq> k)"
        from st' c False have "cache ?st' = ((k, r') # ?f pre) @ (kw, r) # ?f post"
          by simp
        moreover have "fst ` set ((k, r') # ?f pre) \<subseteq> ?Q" using sub False by auto
        ultimately have "\<exists>pre post. cache ?st' = pre @ (kw, r) # post \<and> fst ` set pre \<subseteq> ?Q"
          by blast
        with d' show ?thesis by (simp add: kept_def)
      qed
    next
      case None
      show ?thesis
      proof (cases "ctor k")
        case (Some e)
        with hash None have "?st' = st" by (simp add: runner_factory_def)
        with same show ?thesis by simp
      next
        case ok: None
        have st': "cache ?st' = take maxsize ((k, created st) # cache st)"
          using hash None ok by (simp add: runner_factory_def)
        from None kept_lookup[OF k] have kne: "k \<noteq> kw" by auto
        from None have knew: "k \<notin> fst ` set (cache st)" by (simp add: map_of_eq_None_iff)
        let ?A = "(k, created st) # pre"
        have subA: "fst ` set ?A \<subseteq> ?Q" using sub kne by auto
        have "distinct (map fst ?A)" using dpre knew c by auto
        then have "length ?A = card (fst ` set ?A)"
          by (metis distinct_card length_map set_map)
        also have "\<dots> \<le> card ?Q" using subA fin by (intro card_mono) auto
        finally have len: "length ?A < maxsize" using card by simp
        have "take maxsize (?A @ (kw, r) # post)
              = ?A @ (kw, r) # take (maxsize - Suc (length ?A)) post"
          using len by (simp add: take_Cons')
        with st' c have "cache ?st' = ?A @ (kw, r) # take (maxsize - Suc (length ?A)) post"
          by simp
        with subA have "\<exists>pre post. cache ?st' = pre @ (kw, r) # post \<and> fst ` set pre \<subseteq> ?Q"
          by blast
        with d' show ?thesis by (simp add: kept_def)
      qed
    qed
  qed
qed

lemma kept_calls:
  assumes "kept kw r P st"
    and "finite P"
    and "card (P \<union> (set (map snd cs) - {kw})) < maxsize"
  shows "kept kw r (P \<union> (set (map snd cs) - {kw})) (factory_calls cs st)"
  using assms
proof (induction cs arbitrary: P st)
  case Nil
  then show ?case by simp
next
  case (Cons c cs)
  let ?P' = "P \<union> ({snd c} - {kw})"
  have eq: "?P' \<union> (set (map snd cs) - {kw}) = P \<union> (set (map snd (c # cs)) - {kw})"
    by auto
  have fin: "finite ?P'" using Cons.prems(2) by simp
  have "?P' \<subseteq> P \<union> (set (map snd (c # cs)) - {kw})" by auto
  then have "card ?P' \<le> card (P \<union> (set (map snd (c # cs)) - {kw}))"
    using Cons.prems(2) by (intro card_mono) auto
  with Cons.prems(3) have c1: "card ?P' < maxsize" by simp
  have step: "kept kw r ?P' (snd (runner_factory (fst c) (snd c) st))"
    using Cons.prems(1,2) c1 by (rule kept_step)
  have "card (?P' \<union> (set (map snd cs) - {kw})) < maxsize"
    using Cons.prems(3) unfolding eq .
  from Cons.IH[OF step fin this] show ?case unfolding eq by simp
qed

lemma kept_after_call:
  assumes "keys_distinct st"
    and "runner_factory ctor kw st = (Inr r, st')"
  shows "kept kw r {} st' \<and> list_all (\<lambda>a. hashable (snd a)) kw"
proof -
  have h: "list_all (\<lambda>a. hashable (snd a)) kw"
    using assms(2) by (auto simp: runner_factory_def split: if_splits)
  have d: "keys_distinct st'"
    using runner_factory_distinct[OF assms(1), of ctor kw] assms(2) by simp
  have pos: "0 < maxsize" by (simp add: maxsize_def)
  have "\<exists>post. cache st' = (kw, r) # post"
    using assms(2) h pos
    by (auto simp: runner_factory_def take_Cons' split: option.splits)
  then have "\<exists>pre post. cache st' = pre @ (kw, r) # post \<and> fst ` set pre \<subseteq> {}"
    by (metis append_Nil empty_subsetI image_empty list.set(1))
  with d h show ?thesis by (simp add: kept_def)
qed

lemma kept_hit:
  assumes "kept kw r P st"
    and "list_all (\<lambda>a. hashable (snd a)) kw"
  shows "fst (runner_factory ctor kw st) = Inr r
       \<and> created (snd (runner_factory ctor kw st)) = created st"
  using kept_lookup[OF assms(1)] assms(2) by (simp add: runner_factory_def)

lemma cleared_constructs_new:
  assumes "list_all (\<lambda>a. hashable (snd a)) kw" and "ctor kw = None"
  shows "fst (runner_factory ctor kw (cache_clear st)) = Inr (created st)"
  using assms by (simp add: runner_factory_def cache_clear_def)

lemma assign_params_agree:
  "\<forall>p \<in> set params. sp1 p = sp2 p \<Longrightarrow> assign_params params sp1 = assign_params params sp2"
  by (induction params) (simp_all add: assign_params_def List.map_filter_def)

text \<open>Two Experiments whose specifications agree on the parameters of the Runner share it.\<close>

lemma experiments_share_runner:
  assumes "experiment_runner rm e1 (factory_run ops factory_init) = (Inr r, st1)"
    and "\<forall>p \<in> set (runner_params rm). exp_spec e1 p = exp_spec e2 p"
  shows "fst (experiment_runner rm e2 st1) = Inr r"
proof -
  let ?kw = "assign_params (runner_params rm) (exp_spec e1)"
  have same: "assign_params (runner_params rm) (exp_spec e2) = ?kw"
    using assign_params_agree[OF assms(2)] by simp
  from assms(1) have "runner_factory (construct rm) ?kw (factory_run ops factory_init) = (Inr r, st1)"
    by (simp add: experiment_runner_def)
  from kept_after_call[OF reachable_distinct this]
  have "kept ?kw r {} st1" and "list_all (\<lambda>a. hashable (snd a)) ?kw" by simp_all
  from kept_hit[OF this] show ?thesis by (simp add: experiment_runner_def same)
qed

text \<open>The example calls.\<close>

lemma first_target_call:
  "runner_factory always_constructs (target_kw 0) (factory_run [] factory_init)
     = (Inr 0, first_target_state)"
  by code_simp

lemma others_127: "card (set (map snd (target_calls [1..<128])) - {target_kw 0}) < maxsize"
  by code_simp

lemma others_128: "card (set (map snd (target_calls [1..<129])) - {target_kw 0}) = maxsize"
  by code_simp

lemma keyword_order_matters:
  "fst (runner_factory always_constructs [(''baseline'', PNone), (''target'', PStr ''.'')]
         (snd (runner_factory always_constructs [(''target'', PStr ''.''), (''baseline'', PNone)]
                factory_init))) = Inr 1"
  by code_simp

section \<open>The warmup and exercise parts\<close>

text \<open>
  C6. For every function whose dedented body does not contain the marker, the built
  specification has no \<open>warmup\<close> key and its \<open>exercise\<close> is the whole dedented body.
\<close>

theorem no_marker_spec:
  assumes "spec_from_func f = Inr sp"
    and "func_source f = Inr src"
    and "\<not> sublist marker (body_of src)"
  shows "sp ''warmup'' = None \<and> sp ''exercise'' = Some (PStr (body_of src))"
proof -
  from assms(1) obtain src' w s e where
    src': "func_source f = Inr src'" and
    rp: "rpartition marker (body_of src') = (w, s, e)" and
    ex: "sp ''exercise'' = Some (PStr e)" and
    wu: "sp ''warmup'' = (if w = [] then None else Some (PStr w))"
    by (rule spec_from_func_keys)
  from src' assms(2) have "src' = src" by simp
  with rp rpartition_not_found[OF assms(3)] have "w = []" "e = body_of src" by simp_all
  with ex wu show ?thesis by simp
qed

theorem no_marker_spec_witness:
  "spec_from_func plain_perf = Inr plain_perf_spec
   \<and> func_source plain_perf = Inr plain_perf_source
   \<and> \<not> sublist marker (body_of plain_perf_source)
   \<and> plain_perf_spec ''warmup'' = None
   \<and> plain_perf_spec ''exercise'' = Some (PStr (body_of plain_perf_source))"
proof -
  have src: "func_source plain_perf = Inr plain_perf_source" by (simp add: plain_perf_def)
  from no_marker_spec[OF plain_perf_built src plain_perf_no_marker]
  show ?thesis using plain_perf_built src plain_perf_no_marker by simp
qed

text \<open>
  C9. Every built specification has the \<open>exercise\<close> key, and when it has the \<open>warmup\<close>
  key, the value is a non-empty text that stands before the marker in the dedented
  body: the body is that text, the marker, and the \<open>exercise\<close> text.
\<close>

theorem exercise_always_warmup_nonempty:
  assumes "spec_from_func f = Inr sp"
  shows "\<exists>src e. func_source f = Inr src \<and> sp ''exercise'' = Some (PStr e)
           \<and> (\<forall>v. sp ''warmup'' = Some v \<longrightarrow>
                 (\<exists>w. v = PStr w \<and> w \<noteq> [] \<and> body_of src = w @ marker @ e))"
proof -
  from assms obtain src w s e where
    src: "func_source f = Inr src" and
    rp: "rpartition marker (body_of src) = (w, s, e)" and
    ex: "sp ''exercise'' = Some (PStr e)" and
    wu: "sp ''warmup'' = (if w = [] then None else Some (PStr w))"
    by (rule spec_from_func_keys)
  have "body_of src = w @ marker @ e" if "w \<noteq> []"
  proof (cases "sublist marker (body_of src)")
    case True
    from rpartition_found[OF marker_nonempty True] rp show ?thesis by auto
  next
    case False
    from rpartition_not_found[OF False] rp that show ?thesis by simp
  qed
  with src ex wu show ?thesis by (auto split: if_splits)
qed

theorem exercise_always_warmup_nonempty_witness:
  "spec_from_func thing_perf = Inr thing_perf_spec
   \<and> func_source thing_perf = Inr thing_perf_source
   \<and> thing_perf_spec ''exercise'' = Some (PStr (LF # ''measure()'' @ [LF]))
   \<and> thing_perf_spec ''warmup'' = Some (PStr (''setup()'' @ [LF]))
   \<and> body_of thing_perf_source = (''setup()'' @ [LF]) @ marker @ (LF # ''measure()'' @ [LF])"
proof -
  have src: "func_source thing_perf = Inr thing_perf_source" by (simp add: thing_perf_def)
  from exercise_always_warmup_nonempty[OF thing_perf_built] obtain src' e where
    1: "func_source thing_perf = Inr src'" and
    2: "thing_perf_spec ''exercise'' = Some (PStr e)" and
    3: "\<forall>v. thing_perf_spec ''warmup'' = Some v \<longrightarrow>
           (\<exists>w. v = PStr w \<and> w \<noteq> [] \<and> body_of src' = w @ marker @ e)"
    by blast
  from 1 src have s: "src' = thing_perf_source" by simp
  from 2 have e: "e = LF # ''measure()'' @ [LF]" by (simp add: lookups_thing_perf)
  from 3 lookups_thing_perf(1) have
    "body_of src' = (''setup()'' @ [LF]) @ marker @ e" by auto
  with s e thing_perf_built src lookups_thing_perf show ?thesis by simp
qed

text \<open>
  C10. The split is made at the last occurrence of the text \<open># end warmup\<close> anywhere
  in the dedented body, whether or not it stands on a line of its own: when the body
  is \<open>pre\<close>, the marker and \<open>post\<close>, and no occurrence of the marker starts further
  right, \<open>exercise\<close> is \<open>post\<close> and \<open>warmup\<close> is \<open>pre\<close> (the key is left out when
  \<open>pre\<close> is empty).
\<close>

theorem split_at_last_occurrence:
  assumes "spec_from_func f = Inr sp"
    and "func_source f = Inr src"
    and "body_of src = pre @ marker @ post"
    and "\<not> sublist marker (tl (marker @ post))"
  shows "sp ''exercise'' = Some (PStr post)
       \<and> sp ''warmup'' = (if pre = [] then None else Some (PStr pre))"
proof -
  from assms(1) obtain src' w s e where
    src': "func_source f = Inr src'" and
    rp: "rpartition marker (body_of src') = (w, s, e)" and
    ex: "sp ''exercise'' = Some (PStr e)" and
    wu: "sp ''warmup'' = (if w = [] then None else Some (PStr w))"
    by (rule spec_from_func_keys)
  from src' assms(2) have "src' = src" by simp
  with rp assms(3) rpartition_last_occurrence[OF marker_nonempty assms(4), of pre]
  have "w = pre" "e = post" by simp_all
  with ex wu show ?thesis by simp
qed

theorem split_at_last_occurrence_witness:
  "spec_from_func twice_perf = Inr twice_perf_spec
   \<and> func_source twice_perf = Inr twice_perf_source
   \<and> body_of twice_perf_source = twice_perf_pre @ marker @ twice_perf_post
   \<and> \<not> sublist marker (tl (marker @ twice_perf_post))
   \<and> sublist marker twice_perf_pre
   \<and> \<not> marker_on_own_line (body_of twice_perf_source)
   \<and> twice_perf_spec ''exercise'' = Some (PStr twice_perf_post)
   \<and> twice_perf_spec ''warmup'' = Some (PStr twice_perf_pre)"
proof -
  have src: "func_source twice_perf = Inr twice_perf_source" by (simp add: twice_perf_def)
  have ne: "twice_perf_pre \<noteq> []" by (simp add: twice_perf_pre_def)
  have a: "sublist marker twice_perf_pre" by code_simp
  have b: "\<not> marker_on_own_line (body_of twice_perf_source)" by code_simp
  from split_at_last_occurrence[OF twice_perf_built src twice_perf_body twice_perf_last]
  show ?thesis using twice_perf_built src twice_perf_body twice_perf_last ne a b by simp
qed

text \<open>
  C4, as amended. For every function whose dedented body has the marker on a line of
  its own, the built specification has the \<open>exercise\<close> key, and the body is the warmup
  text, the marker text \<open># end warmup\<close> and the exercise text, in this order, where
  the warmup text is the value of the \<open>warmup\<close> key, and is empty exactly when the
  key is absent, and where the marker does not occur again further right. The line end
  of the marker line opens the exercise text.
\<close>

theorem marker_round_trip:
  assumes "spec_from_func f = Inr sp"
    and "func_source f = Inr src"
    and "marker_on_own_line (body_of src)"
  shows "\<exists>w e. sp ''exercise'' = Some (PStr e)
           \<and> sp ''warmup'' = (if w = [] then None else Some (PStr w))
           \<and> w @ marker @ e = body_of src
           \<and> \<not> sublist marker (tl (marker @ e))"
proof -
  from assms(1) obtain src' w s e where
    src': "func_source f = Inr src'" and
    rp: "rpartition marker (body_of src') = (w, s, e)" and
    ex: "sp ''exercise'' = Some (PStr e)" and
    wu: "sp ''warmup'' = (if w = [] then None else Some (PStr w))"
    by (rule spec_from_func_keys)
  from src' assms(2) have "src' = src" by simp
  with rp rpartition_found[OF marker_nonempty own_line_sublist[OF assms(3)]]
  have "w @ marker @ e = body_of src \<and> \<not> sublist marker (tl (marker @ e))" by auto
  with ex wu show ?thesis by blast
qed

theorem marker_round_trip_witness:
  "spec_from_func thing_perf = Inr thing_perf_spec
   \<and> func_source thing_perf = Inr thing_perf_source
   \<and> marker_on_own_line (body_of thing_perf_source)
   \<and> thing_perf_spec ''exercise'' = Some (PStr (LF # ''measure()'' @ [LF]))
   \<and> thing_perf_spec ''warmup'' = Some (PStr (''setup()'' @ [LF]))
   \<and> (''setup()'' @ [LF]) @ marker @ (LF # ''measure()'' @ [LF]) = body_of thing_perf_source"
proof -
  have src: "func_source thing_perf = Inr thing_perf_source" by (simp add: thing_perf_def)
  from marker_round_trip[OF thing_perf_built src thing_perf_own_line] obtain w e where
    1: "thing_perf_spec ''exercise'' = Some (PStr e)" and
    2: "thing_perf_spec ''warmup'' = (if w = [] then None else Some (PStr w))" and
    3: "w @ marker @ e = body_of thing_perf_source"
    by blast
  from 1 have e: "e = LF # ''measure()'' @ [LF]" by (simp add: lookups_thing_perf)
  from 2 have w: "w = ''setup()'' @ [LF]" by (simp add: lookups_thing_perf split: if_splits)
  from 3 e w thing_perf_built src thing_perf_own_line lookups_thing_perf show ?thesis by simp
qed

text \<open>
  C4, as stated, fails: the body of \<open>marker_first_perf\<close> has the marker on its own
  line, the first one, and the built specification has no \<open>warmup\<close> key.
\<close>

theorem marker_first_no_warmup:
  "marker_on_own_line (body_of marker_first_perf_source)
   \<and> func_source marker_first_perf = Inr marker_first_perf_source
   \<and> spec_from_func marker_first_perf = Inr marker_first_perf_spec
   \<and> marker_first_perf_spec ''warmup'' = None
   \<and> marker_first_perf_spec ''exercise'' = Some (PStr (LF # ''measure()'' @ [LF]))"
  using marker_first_own_line marker_first_perf_built
  by (simp add: marker_first_perf_def marker_first_perf_spec_def dict_py_def)
section \<open>Name and optional attributes\<close>

text \<open>
  C7, as amended. A function without an \<open>extras\<close>, \<open>deps\<close> or \<open>control\<close> attribute
  gets no such key in the built specification. When \<open>extras\<close> or \<open>deps\<close> is an
  iterable, the value of the key is the tuple of its elements in iteration order; when
  it is Python's \<open>None\<close>, the value of the key is \<open>None\<close>. A \<open>control\<close> attribute is
  passed as it is.
\<close>

theorem optional_attributes:
  assumes "spec_from_func f = Inr sp"
  shows "(func_extras f = None \<longrightarrow> sp ''extras'' = None)
       \<and> (func_deps f = None \<longrightarrow> sp ''deps'' = None)
       \<and> (func_control f = None \<longrightarrow> sp ''control'' = None)
       \<and> (\<forall>v xs. func_extras f = Some v \<and> iter_py v = Some xs \<longrightarrow> sp ''extras'' = Some (PTuple xs))
       \<and> (\<forall>v xs. func_deps f = Some v \<and> iter_py v = Some xs \<longrightarrow> sp ''deps'' = Some (PTuple xs))
       \<and> (\<forall>v. func_control f = Some v \<longrightarrow> sp ''control'' = Some v)
       \<and> (func_extras f = Some PNone \<longrightarrow> sp ''extras'' = Some PNone)
       \<and> (func_deps f = Some PNone \<longrightarrow> sp ''deps'' = Some PNone)"
proof -
  from assms obtain src w s e where
    "func_source f = Inr src" and
    "rpartition marker (body_of src) = (w, s, e)" and
    co: "sp ''control'' = func_control f" and
    en: "func_extras f = None \<longrightarrow> sp ''extras'' = None" and
    es: "\<forall>v. func_extras f = Some v \<longrightarrow> (\<exists>t. freeze v = Inr t \<and> sp ''extras'' = Some t)" and
    dn: "func_deps f = None \<longrightarrow> sp ''deps'' = None" and
    ds: "\<forall>v. func_deps f = Some v \<longrightarrow> (\<exists>t. freeze v = Inr t \<and> sp ''deps'' = Some t)"
    by (rule spec_from_func_keys)
  have e1: "sp ''extras'' = Some (PTuple xs)" if "func_extras f = Some v" "iter_py v = Some xs" for v xs
    using es that freeze_iterable[OF that(2)] by auto
  have d1: "sp ''deps'' = Some (PTuple xs)" if "func_deps f = Some v" "iter_py v = Some xs" for v xs
    using ds that freeze_iterable[OF that(2)] by auto
  have e2: "func_extras f = Some PNone \<longrightarrow> sp ''extras'' = Some PNone"
    using es by (auto simp: freeze_def)
  have d2: "func_deps f = Some PNone \<longrightarrow> sp ''deps'' = Some PNone"
    using ds by (auto simp: freeze_def)
  from co en dn e1 d1 e2 d2 show ?thesis by simp
qed

theorem optional_attributes_witness:
  "spec_from_func plain_perf = Inr plain_perf_spec
   \<and> func_deps plain_perf = None \<and> plain_perf_spec ''deps'' = None
   \<and> func_extras plain_perf = Some (PTuple [PStr ''a'', PStr ''b''])
   \<and> plain_perf_spec ''extras'' = Some (PTuple [PStr ''a'', PStr ''b''])
   \<and> func_control plain_perf = Some (PStr ''v1'')
   \<and> plain_perf_spec ''control'' = Some (PStr ''v1'')
   \<and> spec_from_func thing_perf = Inr thing_perf_spec
   \<and> func_extras thing_perf = None \<and> thing_perf_spec ''extras'' = None
   \<and> func_control thing_perf = None \<and> thing_perf_spec ''control'' = None
   \<and> func_deps thing_perf = Some (PList [PStr ''lib''])
   \<and> thing_perf_spec ''deps'' = Some (PTuple [PStr ''lib''])"
proof -
  note p = optional_attributes[OF plain_perf_built]
  note t = optional_attributes[OF thing_perf_built]
  have fp: "func_deps plain_perf = None"
    "func_extras plain_perf = Some (PTuple [PStr ''a'', PStr ''b''])"
    "func_control plain_perf = Some (PStr ''v1'')"
    by (simp_all add: plain_perf_def)
  have ft: "func_extras thing_perf = None" "func_control thing_perf = None"
    "func_deps thing_perf = Some (PList [PStr ''lib''])"
    by (simp_all add: thing_perf_def)
  from p fp have "plain_perf_spec ''deps'' = None"
    "plain_perf_spec ''extras'' = Some (PTuple [PStr ''a'', PStr ''b''])"
    "plain_perf_spec ''control'' = Some (PStr ''v1'')"
    by simp_all
  moreover from t ft have "thing_perf_spec ''extras'' = None" "thing_perf_spec ''control'' = None"
    "thing_perf_spec ''deps'' = Some (PTuple [PStr ''lib''])"
    by simp_all
  ultimately show ?thesis using plain_perf_built thing_perf_built fp ft by simp
qed

text \<open>
  C7, as stated, fails: \<open>none_extras_perf\<close> has an \<open>extras\<close> attribute, and the
  \<open>extras\<close> of its specification is \<open>None\<close>, which is no sequence.
\<close>

theorem none_attribute_kept:
  "func_extras none_extras_perf = Some PNone
   \<and> spec_from_func none_extras_perf = Inr none_extras_perf_spec
   \<and> none_extras_perf_spec ''extras'' = Some PNone
   \<and> \<not> immutable_sequence PNone"
  using none_extras_perf_built
  by (simp add: none_extras_perf_def none_extras_perf_spec_def dict_py_def immutable_sequence_def)

text \<open>
  C2, as amended. The \<open>name\<close> of a built specification is the first line of the
  documentation text, stripped, when the function has a documentation text with at
  least one line and that first line is not blank; it is then also the first
  non-blank stripped line. In every other case (no documentation, an empty
  documentation text, a blank first line) it is the bare identifier of the function.
\<close>

theorem spec_name:
  assumes "spec_from_func f = Inr sp"
  shows "(func_doc f = None \<longrightarrow> sp ''name'' = Some (PStr (func_name f)))
       \<and> (\<forall>d l ls. func_doc f = Some d \<and> splitlines d = l # ls \<and> strip l \<noteq> [] \<longrightarrow>
             sp ''name'' = Some (PStr (strip l)) \<and> first_nonblank_line d = Some (strip l))
       \<and> (\<forall>d l ls. func_doc f = Some d \<and> splitlines d = l # ls \<and> strip l = [] \<longrightarrow>
             sp ''name'' = Some (PStr (func_name f)))
       \<and> (\<forall>d. func_doc f = Some d \<and> splitlines d = [] \<longrightarrow>
             sp ''name'' = Some (PStr (func_name f)))"
proof -
  from assms obtain src w s e where
    "func_source f = Inr src" and
    "rpartition marker (body_of src) = (w, s, e)" and
    nm: "sp ''name'' = Some (PStr (or_name (first_line (func_doc f)) (func_name f)))"
    by (rule spec_from_func_keys)
  show ?thesis
    unfolding nm by (auto simp: or_name_def first_line_def first_line_first_nonblank)
qed

theorem spec_name_witness:
  "spec_from_func plain_perf = Inr plain_perf_spec
   \<and> func_doc plain_perf = Some ''Widget timing''
   \<and> splitlines ''Widget timing'' = [''Widget timing'']
   \<and> strip ''Widget timing'' = ''Widget timing''
   \<and> plain_perf_spec ''name'' = Some (PStr ''Widget timing'')
   \<and> first_nonblank_line ''Widget timing'' = Some ''Widget timing''
   \<and> spec_from_func thing_perf = Inr thing_perf_spec
   \<and> func_doc thing_perf = None
   \<and> thing_perf_spec ''name'' = Some (PStr (func_name thing_perf))"
proof -
  note p = spec_name[OF plain_perf_built]
  note t = spec_name[OF thing_perf_built]
  have d: "func_doc plain_perf = Some ''Widget timing''" by (simp add: plain_perf_def)
  have sl: "splitlines ''Widget timing'' = [''Widget timing'']" by code_simp
  have st: "strip ''Widget timing'' = ''Widget timing''" by code_simp
  have dn: "func_doc thing_perf = None" by (simp add: thing_perf_def)
  have ne: "strip ''Widget timing'' \<noteq> []" unfolding st by simp
  from p have "\<forall>d l ls. func_doc plain_perf = Some d \<and> splitlines d = l # ls \<and> strip l \<noteq> [] \<longrightarrow>
             plain_perf_spec ''name'' = Some (PStr (strip l)) \<and> first_nonblank_line d = Some (strip l)"
    by (rule conjunct1[OF conjunct2])
  from this[rule_format, of "''Widget timing''" "''Widget timing''" "[]"] d sl ne
  have "plain_perf_spec ''name'' = Some (PStr (strip ''Widget timing''))
      \<and> first_nonblank_line ''Widget timing'' = Some (strip ''Widget timing'')"
    by blast
  then have "plain_perf_spec ''name'' = Some (PStr ''Widget timing'')
      \<and> first_nonblank_line ''Widget timing'' = Some ''Widget timing''"
    unfolding st .
  moreover from t dn have "thing_perf_spec ''name'' = Some (PStr (func_name thing_perf))"
    by simp
  ultimately show ?thesis using plain_perf_built thing_perf_built d sl st dn by simp
qed

text \<open>
  C2, as stated, fails: the documentation text of \<open>foo_perf\<close> has the non-blank line
  \<open>Foo\<close>, after a blank first line, and the name is the identifier \<open>foo_perf\<close>.
\<close>

theorem blank_first_line_name:
  "func_doc foo_perf = Some foo_doc
   \<and> first_nonblank_line foo_doc = Some ''Foo''
   \<and> spec_from_func foo_perf = Inr foo_perf_spec
   \<and> foo_perf_spec ''name'' = Some (PStr ''foo_perf'')
   \<and> foo_perf_spec ''name'' \<noteq> Some (PStr ''Foo'')"
proof -
  have "first_nonblank_line foo_doc = Some ''Foo''" by code_simp
  then show ?thesis using foo_perf_built
    by (simp add: foo_perf_def foo_perf_spec_def dict_py_def)
qed

section \<open>Loading, discovery and the Experiment\<close>

text \<open>
  C5, as amended. When the lookup, the creation or the execution of a module raises
  an exception that is an instance of \<open>Exception\<close>, \<open>load_module\<close> returns \<open>None\<close>
  and does not raise, and \<open>funcs_from_name\<close> yields no function for a name that
  resolves to this module.
\<close>

theorem load_failure_absorbed:
  assumes "load_module_body env name = Inl e"
    and "is_Exception e"
  shows "load_module env name = Inr None
       \<and> (\<forall>full. replace_char (CHR ''/'') (CHR ''.'') (fst (rpartition ''.'' full)) = name
             \<longrightarrow> funcs_from_name env full = Inr [])"
proof -
  have l: "load_module env name = Inr None"
    using assms by (simp add: load_module_def suppress_Exception_def)
  then show ?thesis using funcs_of_no_module[of env] by auto
qed

theorem load_failure_absorbed_witness:
  "load_module_body broken_importlib ''tests.bench'' = Inl (Exc ''SyntaxError'')
   \<and> is_Exception (Exc ''SyntaxError'')
   \<and> load_module broken_importlib ''tests.bench'' = Inr None
   \<and> replace_char (CHR ''/'') (CHR ''.'') (fst (rpartition ''.'' ''tests/bench.py'')) = ''tests.bench''
   \<and> funcs_from_name broken_importlib ''tests/bench.py'' = Inr []"
proof -
  have b: "load_module_body broken_importlib ''tests.bench'' = Inl (Exc ''SyntaxError'')"
    by (simp add: load_module_body_def broken_importlib_def)
  have e: "is_Exception (Exc ''SyntaxError'')" by simp
  have n: "replace_char (CHR ''/'') (CHR ''.'') (fst (rpartition ''.'' ''tests/bench.py'')) = ''tests.bench''"
    by code_simp
  from load_failure_absorbed[OF b e] n b e show ?thesis by blast
qed

text \<open>
  C5, as stated, fails: a module that raises \<open>SystemExit\<close> when it is executed, an
  exception that is no instance of \<open>Exception\<close>, makes \<open>load_module\<close> and
  \<open>funcs_from_name\<close> raise it.
\<close>

theorem load_failure_not_absorbed:
  "load_module_body exiting_importlib ''tests.bench'' = Inl (BaseExc ''SystemExit'')
   \<and> load_module exiting_importlib ''tests.bench'' = Inl (BaseExc ''SystemExit'')
   \<and> funcs_from_name exiting_importlib ''tests/bench.py'' = Inl (BaseExc ''SystemExit'')"
proof -
  have n: "replace_char (CHR ''/'') (CHR ''.'') (fst (rpartition ''.'' ''tests/bench.py'')) = ''tests.bench''"
    by code_simp
  have b: "load_module_body exiting_importlib ''tests.bench'' = Inl (BaseExc ''SystemExit'')"
    by (simp add: load_module_body_def exiting_importlib_def)
  then have l: "load_module exiting_importlib ''tests.bench'' = Inl (BaseExc ''SystemExit'')"
    by (simp add: load_module_def suppress_Exception_def)
  then have "funcs_from_name exiting_importlib ''tests/bench.py'' = Inl (BaseExc ''SystemExit'')"
    by (simp add: funcs_from_name_def n)
  with b l show ?thesis by simp
qed

text \<open>
  C8. An Experiment is false before a run has completed and true after one, whatever
  the run returned: its truth value says that \<open>results\<close> has been set.
\<close>

theorem experiment_truthiness:
  "\<not> experiment_bool (experiment_init rm name spec)
   \<and> (\<forall>e st r st1 res.
         experiment_runner rm e st = (Inr r, st1) \<and> run rm r (exp_command e) = Inr res \<longrightarrow>
           runtest rm e st = (Inr (e\<lparr>exp_results := Some res\<rparr>), st1)
           \<and> experiment_bool (e\<lparr>exp_results := Some res\<rparr>))
   \<and> (\<forall>e st e' st'. runtest rm e st = (Inr e', st') \<longrightarrow> experiment_bool e')
   \<and> (\<forall>e. experiment_bool e = (exp_results e \<noteq> None))"
  by (auto simp: experiment_bool_def experiment_init_def runtest_def split: sum.splits prod.splits)

theorem experiment_truthiness_witness:
  "\<not> experiment_bool quiet_experiment
   \<and> experiment_runner quiet_runner quiet_experiment factory_init =
       (Inr 0, \<lparr>cache = [([(''deps'', PTuple [PStr ''lib''])], 0)], created = Suc 0\<rparr>)
   \<and> run quiet_runner 0 (exp_command quiet_experiment) = Inr (PStr [])
   \<and> \<not> truthy (PStr [])
   \<and> runtest quiet_runner quiet_experiment factory_init =
       (Inr (quiet_experiment\<lparr>exp_results := Some (PStr [])\<rparr>),
        \<lparr>cache = [([(''deps'', PTuple [PStr ''lib''])], 0)], created = Suc 0\<rparr>)
   \<and> experiment_bool (quiet_experiment\<lparr>exp_results := Some (PStr [])\<rparr>)"
proof -
  have r: "run quiet_runner 0 (exp_command quiet_experiment) = Inr (PStr [])"
    by (simp add: quiet_runner_def empty_result_run_def)
  have i: "\<not> experiment_bool quiet_experiment"
    unfolding quiet_experiment_def using experiment_truthiness[of quiet_runner] by blast
  from experiment_truthiness[of quiet_runner] quiet_experiment_runner r
  have "runtest quiet_runner quiet_experiment factory_init =
       (Inr (quiet_experiment\<lparr>exp_results := Some (PStr [])\<rparr>),
        \<lparr>cache = [([(''deps'', PTuple [PStr ''lib''])], 0)], created = Suc 0\<rparr>)
   \<and> experiment_bool (quiet_experiment\<lparr>exp_results := Some (PStr [])\<rparr>)"
    by blast
  with i r quiet_experiment_runner show ?thesis by simp
qed

text \<open>
  C1, as amended. A name is eligible when the case-sensitive pattern
  \<open>(\b|_)perf(\b|_)\<close> matches somewhere in it: the name has \<open>perf\<close> with, on each
  side, the end of the name, a character that is no word character, or an underscore.
  The names \<open>run_perf\<close>, \<open>perf_test\<close>, \<open>do_perf\<close> and \<open>perf\<close> are eligible, and
  the name \<open>performance\<close> is not: after \<open>perf\<close> comes \<open>o\<close>, which is neither a word
  boundary nor an underscore. The upper-case \<open>PERF\<close> is not eligible either.
\<close>

theorem eligible_names:
  "(\<forall>name. eligible name \<longleftrightarrow>
      (\<exists>pre post. name = pre @ ''perf'' @ post
         \<and> (pre = [] \<or> \<not> is_word (last pre) \<or> last pre = CHR ''_'')
         \<and> (post = [] \<or> \<not> is_word (hd post) \<or> hd post = CHR ''_'')))
   \<and> eligible ''run_perf'' \<and> eligible ''perf_test'' \<and> eligible ''do_perf'' \<and> eligible ''perf''
   \<and> \<not> eligible ''performance'' \<and> \<not> eligible ''PERF''"
proof -
  have "eligible ''run_perf'' \<and> eligible ''perf_test'' \<and> eligible ''do_perf'' \<and> eligible ''perf''
   \<and> \<not> eligible ''performance'' \<and> \<not> eligible ''PERF''"
    by code_simp
  with eligible_iff show ?thesis by blast
qed

theorem eligible_names_witness:
  "''thing_perf'' = ''thing_'' @ ''perf'' @ [] \<and> last ''thing_'' = CHR ''_''
   \<and> eligible ''thing_perf''"
proof -
  have s: "''thing_perf'' = ''thing_'' @ ''perf'' @ []" by simp
  have l: "last ''thing_'' = CHR ''_''" by simp
  from eligible_names have "eligible ''thing_perf'' \<longleftrightarrow>
      (\<exists>pre post. ''thing_perf'' = pre @ ''perf'' @ post
         \<and> (pre = [] \<or> \<not> is_word (last pre) \<or> last pre = CHR ''_'')
         \<and> (post = [] \<or> \<not> is_word (hd post) \<or> hd post = CHR ''_''))"
    by blast
  moreover have "\<exists>pre post. ''thing_perf'' = pre @ ''perf'' @ post
         \<and> (pre = [] \<or> \<not> is_word (last pre) \<or> last pre = CHR ''_'')
         \<and> (post = [] \<or> \<not> is_word (hd post) \<or> hd post = CHR ''_'')"
    using s l by blast
  ultimately have "eligible ''thing_perf''" by blast
  with s l show ?thesis by blast
qed

text \<open>
  C1, as stated, fails: \<open>performance\<close> is not eligible.
\<close>

theorem performance_not_eligible: "\<not> eligible ''performance''"
  by code_simp

section \<open>The runner cache\<close>

text \<open>
  C3, as amended. After a call of the runner factory has returned a Runner for some
  keyword arguments, a later call with the same keyword arguments in the same order
  returns the identical Runner and constructs no new one, when no clear and fewer
  than \<open>maxsize = 128\<close> distinct other argument lists were requested in between. This
  holds in every state that a session can reach.
\<close>

theorem runner_reused:
  assumes "runner_factory ctor1 kw (factory_run ops factory_init) = (Inr r, st1)"
    and "card (set (map snd cs) - {kw}) < maxsize"
  shows "fst (runner_factory ctor2 kw (factory_calls cs st1)) = Inr r
       \<and> created (snd (runner_factory ctor2 kw (factory_calls cs st1)))
           = created (factory_calls cs st1)"
proof -
  from kept_after_call[OF reachable_distinct assms(1)]
  have k: "kept kw r {} st1" and h: "list_all (\<lambda>a. hashable (snd a)) kw" by simp_all
  have "kept kw r ({} \<union> (set (map snd cs) - {kw})) (factory_calls cs st1)"
    using k assms(2) by (intro kept_calls) simp_all
  from kept_hit[OF this h] show ?thesis .
qed

theorem runner_reused_witness:
  "runner_factory always_constructs (target_kw 0) (factory_run [] factory_init)
     = (Inr 0, first_target_state)
   \<and> card (set (map snd (target_calls [1..<128])) - {target_kw 0}) < maxsize
   \<and> fst (runner_factory always_constructs (target_kw 0)
            (factory_calls (target_calls [1..<128]) first_target_state)) = Inr 0"
  using runner_reused[OF first_target_call others_127, of always_constructs]
    first_target_call others_127 by simp

text \<open>
  C3, as stated, fails: after 128 distinct other argument lists the entry of the first
  call has left the cache, and the same arguments get a new Runner, the 130th that the
  session constructs, not the one of the first call.
\<close>

theorem runner_evicted:
  "runner_factory always_constructs (target_kw 0) (factory_run [] factory_init)
     = (Inr 0, first_target_state)
   \<and> card (set (map snd (target_calls [1..<129])) - {target_kw 0}) = maxsize
   \<and> fst (runner_factory always_constructs (target_kw 0)
            (factory_calls (target_calls [1..<129]) first_target_state)) = Inr 129"
proof -
  have "fst (runner_factory always_constructs (target_kw 0)
            (factory_calls (target_calls [1..<129]) first_target_state)) = Inr 129"
    by code_simp
  with first_target_call others_128 show ?thesis by simp
qed

end
